theory Spec2Isabelle
  imports Main "HOL-Library.Word"
begin

section \<open>Data model of the kratos expression and statement graph\<close>

text \<open>
  Nodes of the graph are heap objects referred to by pointer in \<^verbatim>\<open>src/src/expr.cc\<close>.
  The embedding keeps an explicit store: a variable, a statement and a generator are
  each named by an index, and the store maps the index to the object's fields.
  \<^verbatim>\<open>uint32_t\<close> is \<open>32 word\<close>, \<^verbatim>\<open>int64_t\<close> is \<open>64 word\<close> read with \<open>sint\<close>.
\<close>

type_synonym uint32 = "32 word"
type_synonym int64 = "64 word"
type_synonym var_id = nat
type_synonym stmt_id = nat
type_synonym gen_id = nat

datatype VarType = Base | Expression | Slice | ConstValue | PortIO | Parameter | BaseCasted

datatype VarCastType = Signed | Unsigned | Clock | AsyncReset

datatype ExprOp =
    UInvert | UPlus | Add | Minus | Divide | Multiply | Mod
  | LogicalShiftRight | SignedShiftRight | ShiftLeft | Or | And | Xor
  | LessThan | GreaterThan | LessEqThan | GreaterEqThan | Eq | Neq
  | UOr | UAnd | UXor | UNot | Concat | Extend | Conditional

datatype AssignmentType = Blocking | NonBlocking | Undefined

text \<open>The dynamic class of a variable node; it selects the virtual member functions.\<close>

datatype VarClass =
    ClsVar | ClsConst | ClsParam | ClsEnumConst | ClsEnumVar
  | ClsExpr | ClsVarConcat | ClsVarExtend | ClsConditionalExpr
  | ClsVarSlice | ClsVarVarSlice | ClsVarCasted

text \<open>
  An exception is a value. \<^verbatim>\<open>::format(fmt, args...)\<close> is kept as the format string with
  its arguments; \<open>ToString v\<close> stands for \<^verbatim>\<open>v->to_string()\<close>. \<open>VarException\<close> also carries
  the nodes handed to it. \<open>UndefinedBehaviour\<close> marks a path on which the source has
  no defined result (a null pointer dereferenced, \<^verbatim>\<open>front()\<close> of an empty vector, the
  conversion of minus infinity to an integer); \<open>OutOfFuel\<close> marks a traversal of the
  pointer graph that did not end within the given number of steps.
\<close>

datatype fmt_arg = ToString var_id | U32 uint32 | I64 int64 | Str string

datatype error =
    VarException string "fmt_arg list" "var_id list"
  | UserException string "fmt_arg list"
  | StmtException string "fmt_arg list"
  | InternalException string
  | UndefinedBehaviour
  | OutOfFuel

text \<open>
  One record holds the members of \<^verbatim>\<open>Var\<close> and of its subclasses; \<open>cls\<close> says which
  subclass the node is, and the members of the other subclasses keep their initial values.
\<close>

record var =
  cls :: VarClass
  name :: string
  generator :: "gen_id option"
  var_width :: uint32
  size_v :: "uint32 list"
  is_signed :: bool
  type_v :: VarType
  explicit_array :: bool
  param :: "var_id option"
  sinks :: "stmt_id list"
  sources :: "stmt_id list"
  slices :: "var_id list"
  concat_vars :: "var_id list"
  casted :: "(VarCastType \<times> var_id) list"
  expr_op :: ExprOp
  left :: "var_id option"
  right :: "var_id option"
  vars_c :: "var_id list"
  condition :: "var_id option"
  parent_var :: "var_id option"
  high :: uint32
  low :: uint32
  var_high :: uint32
  var_low :: uint32
  sliced_var :: "var_id option"
  cast_type :: "VarCastType option"
  value_c :: int64
  param_vars :: "var_id list"
  param_params :: "var_id list"
  enum_type :: "string option"

record stmt =
  s_left :: var_id
  s_right :: var_id
  assign_type :: AssignmentType
  generator_parent :: "gen_id option"
  fn_name_ln :: "(string \<times> nat) list"

record gen =
  g_parent :: "gen_id option"
  debug :: bool
  stmts_g :: "stmt_id list"

record state =
  vars :: "var_id \<Rightarrow> var"
  stmts :: "stmt_id \<Rightarrow> stmt"
  gens :: "gen_id \<Rightarrow> gen"
  next_var :: var_id
  next_stmt :: stmt_id
  const_gen :: "gen_id option"

section \<open>Signals: construction and width\<close>

text \<open>
  Modelled from the spec: \<^verbatim>\<open>is_valid_variable_name\<close> is declared outside
  \<^verbatim>\<open>src/\<close>; the spec only says that an identifier must not collide with a reserved
  keyword of the output language. The table below lists a few of them; derived nodes
  are always built with the empty name, which is not a keyword.
\<close>

definition is_valid_variable_name :: "string \<Rightarrow> bool" where
  "is_valid_variable_name n \<longleftrightarrow>
     n \<notin> set [''module'', ''endmodule'', ''wire'', ''reg'', ''logic'', ''input'', ''output'',
               ''assign'', ''always'', ''begin'', ''end'', ''if'', ''else'', ''case'']"

text \<open>
  \<^verbatim>\<open>Var::Var(Generator*, name, var_width, vector size, is_signed, type)\<close>: the member
  initialisers (\<open>init_var\<close>; sets and memo tables start empty), then the two checks.
\<close>

definition init_var ::
  "gen_id option \<Rightarrow> string \<Rightarrow> uint32 \<Rightarrow> uint32 list \<Rightarrow> bool \<Rightarrow> VarType \<Rightarrow> var" where
  "init_var m n w sz sg ty =
     \<lparr> cls = ClsVar, name = n, generator = m, var_width = w, size_v = sz,
       is_signed = sg, type_v = ty, explicit_array = False, param = None,
       sinks = [], sources = [], slices = [], concat_vars = [], casted = [],
       expr_op = Add, left = None, right = None, vars_c = [], condition = None,
       parent_var = None,
       high = 0, low = 0, var_high = 0, var_low = 0, sliced_var = None,
       cast_type = None, value_c = 0, param_vars = [], param_params = [],
       enum_type = None \<rparr>"

definition Var_ctor ::
  "gen_id option \<Rightarrow> string \<Rightarrow> uint32 \<Rightarrow> uint32 list \<Rightarrow> bool \<Rightarrow> VarType \<Rightarrow> error + var" where
  "Var_ctor m n w sz sg ty =
     (if m = None \<and> ty \<noteq> ConstValue then Inl (UserException ''module is null for {0}'' [Str n])
      else if \<not> is_valid_variable_name n
        then Inl (UserException ''{0} is a SystemVerilog keyword'' [Str n])
      else Inr (init_var m n w sz sg ty))"

text \<open>\<^verbatim>\<open>Var::width()\<close>: the element width multiplied by every dimension, in 32 bits.\<close>

definition width :: "var \<Rightarrow> uint32" where
  "width v = foldl (\<lambda>w i. w * i) (var_width v) (size_v v)"

section \<open>Operator expressions\<close>



text \<open>
  \<^verbatim>\<open>Expr::set_parent\<close>: the owning scope of an expression. \<^verbatim>\<open>Generator::parent()\<close> is
  the \<open>g_parent\<close> link; comparing the scopes compares pointers, a null one included.
\<close>

definition gen_parent_of :: "state \<Rightarrow> gen_id option \<Rightarrow> error + gen_id option" where
  "gen_parent_of st g = (case g of None \<Rightarrow> Inl UndefinedBehaviour | Some i \<Rightarrow> Inr (g_parent (gens st i)))"

definition set_parent :: "state \<Rightarrow> var \<Rightarrow> error + var" where
  "set_parent st e =
     (case left e of None \<Rightarrow> Inl UndefinedBehaviour
      | Some l \<Rightarrow>
     (case right e of
        None \<Rightarrow> Inr (e\<lparr>generator := generator (vars st l)\<rparr>)
      | Some r \<Rightarrow>
          let left_gen = generator (vars st l); right_gen = generator (vars st r) in
          if left_gen = const_gen st then Inr (e\<lparr>generator := right_gen\<rparr>)
          else if right_gen = const_gen st then Inr (e\<lparr>generator := left_gen\<rparr>)
          else if left_gen = right_gen then Inr (e\<lparr>generator := left_gen\<rparr>)
          else
            (case gen_parent_of st right_gen of Inl x \<Rightarrow> Inl x
             | Inr rp \<Rightarrow>
               if left_gen = rp \<and> type_v (vars st r) = PortIO
               then Inr (e\<lparr>generator := left_gen\<rparr>)
               else
                 (case gen_parent_of st left_gen of Inl x \<Rightarrow> Inl x
                  | Inr lp \<Rightarrow>
                    if lp = rp \<and> type_v (vars st l) = PortIO \<and> type_v (vars st r) = PortIO
                    then Inr (e\<lparr>generator := lp\<rparr>)
                    else Inr (e\<lparr>generator := right_gen\<rparr>)))))"


section \<open>Range slices\<close>

text \<open>
  \<^verbatim>\<open>VarSlice::VarSlice(Var *parent, uint32_t high, uint32_t low)\<close>. The member
  initialisers build a width-\<^verbatim>\<open>parent->var_width()\<close>, size-1 node of type \<open>Slice\<close>; the
  body then fixes the width and the dimension list and computes the absolute offsets
  \<open>var_high\<close>, \<open>var_low\<close>.
\<close>

definition is_scalar :: "var \<Rightarrow> bool" where
  "is_scalar v \<longleftrightarrow> (case size_v v of [d] \<Rightarrow> d = 1 | _ \<Rightarrow> False)"

definition base_width :: "var \<Rightarrow> uint32" where
  "base_width v = foldl (\<lambda>w i. w * i) (var_width v) (tl (size_v v))"

definition VarSlice_ctor :: "state \<Rightarrow> var_id \<Rightarrow> uint32 \<Rightarrow> uint32 \<Rightarrow> error + var" where
  "VarSlice_ctor st p h l =
     (let pv = vars st p in
      case Var_ctor (generator pv) '''' (var_width pv) [1] (is_signed pv) Slice of
        Inl x \<Rightarrow> Inl x
      | Inr v0 \<Rightarrow>
          let v = v0\<lparr>cls := ClsVarSlice, parent_var := Some p, low := l, high := h\<rparr> in
          if is_scalar pv \<and> explicit_array pv \<and> (h \<noteq> 0 \<or> l \<noteq> 0)
          then Inl (VarException
                 ''Parent {0} is a scalar but used marked as an explicit array, only [0, 0] allowed''
                 [ToString p] [p])
          else if \<not> is_scalar pv \<and> size_v pv = [] then Inl UndefinedBehaviour
          else
            let v1 = (if is_scalar pv \<and> explicit_array pv then v
                      else if is_scalar pv then v\<lparr>var_width := h - l + 1\<rparr>
                      else v\<lparr>size_v := (size_v pv)[0 := h - l + 1], var_width := var_width pv\<rparr>)
            in
            if type_v pv \<noteq> Slice then
              (if is_scalar pv \<and> explicit_array pv
               then Inr (v1\<lparr>var_low := 0, var_high := var_width v1 - 1\<rparr>)
               else if is_scalar pv then Inr (v1\<lparr>var_low := l, var_high := h\<rparr>)
               else Inr (v1\<lparr>var_low := l * base_width pv,
                             var_high := (h + 1) * base_width pv - 1\<rparr>))
            else
              (if is_scalar pv
               then Inr (v1\<lparr>var_low := l + var_low pv, var_high := (h + 1) + var_low pv\<rparr>)
               else Inr (v1\<lparr>var_low := var_low pv + l * base_width pv,
                             var_high := var_low pv + (h + 1) * base_width pv - 1\<rparr>)))"

text \<open>Allocation of a node (\<^verbatim>\<open>make_shared\<close>): the next unused index names it.\<close>

definition alloc_var :: "state \<Rightarrow> var \<Rightarrow> state \<times> var_id" where
  "alloc_var st v = (st\<lparr>vars := (vars st)(next_var st := v), next_var := Suc (next_var st)\<rparr>,
                     next_var st)"

text \<open>\<^verbatim>\<open>Var::operator[](std::pair<uint32_t, uint32_t> slice)\<close>, the pair being (high, low).\<close>

definition slice_op :: "state \<Rightarrow> var_id \<Rightarrow> uint32 \<Rightarrow> uint32 \<Rightarrow> error + state \<times> var_id" where
  "slice_op st this h l =
     (let v = vars st this in
      if l > h
      then Inl (VarException ''low ({0}) cannot be larger than ({1})'' [U32 l, U32 h] [this])
      else if is_scalar v \<and> h \<ge> width v
      then Inl (VarException ''high ({0}) has to be smaller than width ({1})''
                  [U32 h, U32 (width v)] [this])
      else if \<not> is_scalar v \<and> size_v v = [] then Inl UndefinedBehaviour
      else if \<not> is_scalar v \<and> h > hd (size_v v)
      then Inl (VarException ''high ({0}) has to be smaller than size ({1})''
                  [U32 h, U32 (hd (size_v v))] [this])
      else
        (case VarSlice_ctor st this h l of
           Inl x \<Rightarrow> Inl x
         | Inr n \<Rightarrow>
             let (st1, i) = alloc_var st n in
             Inr (st1\<lparr>vars := (vars st1)(this := (vars st1 this)\<lparr>slices :=
                        List.insert i (slices (vars st1 this))\<rparr>)\<rparr>, i)))"

section \<open>Variable-indexed slices\<close>

text \<open>
  \<^verbatim>\<open>std::ceil(std::log2(n))\<close> for a 32-bit \<open>n \<ge> 1\<close>: the least \<open>k\<close> with \<open>n \<le> 2 ^ k\<close>.
  (The double-precision logarithm is exact on powers of two and strictly between two
  integers elsewhere for every 32-bit argument, so the rounding is the mathematical one.)
\<close>

definition clog2 :: "nat \<Rightarrow> nat" where
  "clog2 n = length (takeWhile (\<lambda>k. 2 ^ k < n) [0..<32])"

text \<open>\<^verbatim>\<open>VarVarSlice::VarVarSlice(Var *parent, Var *slice)\<close>: a \<^verbatim>\<open>VarSlice(parent, 0, 0)\<close> first.\<close>

definition VarVarSlice_ctor :: "state \<Rightarrow> var_id \<Rightarrow> var_id \<Rightarrow> error + var" where
  "VarVarSlice_ctor st p idx =
     (let pv = vars st p in
      case VarSlice_ctor st p 0 0 of
        Inl x \<Rightarrow> Inl x
      | Inr v0 \<Rightarrow>
          let v = v0\<lparr>cls := ClsVarVarSlice, sliced_var := Some idx\<rparr> in
          if is_scalar pv \<and> \<not> explicit_array pv
          then Inr (v\<lparr>var_width := 1, size_v := [1], var_high := 0, var_low := 0\<rparr>)
          else
            (case size_v pv of
               [] \<Rightarrow> Inl UndefinedBehaviour
             | d # ds \<Rightarrow>
                 if d = 0 then Inl UndefinedBehaviour
                 else
                   let v1 = v\<lparr>var_width := var_width pv,
                               size_v := (if length (size_v pv) > 1 then ds else [1]),
                               var_high := var_width pv - 1, var_low := 0\<rparr>;
                       required_width = (word_of_nat (max 1 (clog2 (unat d))) :: uint32)
                   in
                   if required_width \<noteq> width (vars st idx)
                   then Inl (VarException
                          ''Bit extraction of array[{0}:0] requires {1} bit index, not {2} bits.''
                          [U32 (d - 1), U32 required_width, U32 (width (vars st idx))] [p, idx])
                   else Inr v1))"

section \<open>Casts\<close>

text \<open>
  \<^verbatim>\<open>VarCasted::VarCasted(Var *parent, VarCastType cast_type)\<close>. The base initialiser is
  \<^verbatim>\<open>Var(parent->generator, "", parent->width(), true, parent->type())\<close>: the five-argument
  constructor, so the size is \<^verbatim>\<open>true\<close> = 1 and the sign flag is the node type converted to
  \<^verbatim>\<open>bool\<close>, false only for the first enumerator \<open>Base\<close>.
\<close>

definition VarCasted_ctor :: "state \<Rightarrow> var_id \<Rightarrow> VarCastType \<Rightarrow> error + var" where
  "VarCasted_ctor st p ct =
     (let pv = vars st p in
      case Var_ctor (generator pv) '''' (width pv) [1] (type_v pv \<noteq> Base) Base of
        Inl x \<Rightarrow> Inl x
      | Inr v0 \<Rightarrow>
          let v = v0\<lparr>cls := ClsVarCasted, parent_var := Some p, cast_type := Some ct,
                      type_v := BaseCasted\<rparr> in
          if ct = Signed then Inr (v\<lparr>is_signed := True\<rparr>)
          else if ct = Unsigned then Inr (v\<lparr>is_signed := False\<rparr>)
          else if ct = AsyncReset \<or> ct = Clock then
            (case size_v pv of
               [] \<Rightarrow> Inl UndefinedBehaviour
             | d # ds \<Rightarrow>
                 if length (size_v pv) \<noteq> 1 \<or> d \<noteq> 1
                 then Inl (VarException
                        ''Can only cast bit width 1 to Clock or AsyncReset. {0} is {1}''
                        [ToString p, U32 d] [p])
                 else Inr v)
          else Inr v)"

text \<open>\<^verbatim>\<open>Var::cast(VarCastType cast_type)\<close>; \<open>casted\<close> is the per-signal memo table.\<close>

definition cast :: "state \<Rightarrow> var_id \<Rightarrow> VarCastType \<Rightarrow> error + state \<times> var_id" where
  "cast st this ct =
     (if ct = Signed \<and> is_signed (vars st this) then Inr (st, this)
      else
        (case map_of (casted (vars st this)) ct of
           Some c \<Rightarrow> Inr (st, c)
         | None \<Rightarrow>
             (case VarCasted_ctor st this ct of
                Inl x \<Rightarrow> Inl x
              | Inr n \<Rightarrow>
                  let (st1, i) = alloc_var st n in
                  Inr (st1\<lparr>vars := (vars st1)(this := (vars st1 this)\<lparr>casted :=
                             casted (vars st1 this) @ [(ct, i)]\<rparr>)\<rparr>, i))))"

section \<open>Concatenation\<close>

text \<open>
  \<^verbatim>\<open>Expr::Expr(Var *left, Var *right)\<close>, the two-argument constructor that
  \<^verbatim>\<open>VarConcat\<close> builds on: operator \<open>Add\<close>, no width check.
\<close>

definition Expr_ctor2 :: "state \<Rightarrow> var_id \<Rightarrow> var_id \<Rightarrow> error + var" where
  "Expr_ctor2 st l r =
     (let lv = vars st l in
      case Var_ctor (generator lv) '''' (var_width lv) (size_v lv) (is_signed lv) Expression of
        Inl x \<Rightarrow> Inl x
      | Inr v \<Rightarrow>
          set_parent st (v\<lparr> cls := ClsExpr, expr_op := Add, left := Some l, right := Some r,
                           type_v := Expression, size_v := size_v lv \<rparr>))"

text \<open>\<^verbatim>\<open>VarConcat::VarConcat(const shared_ptr<Var> &first, const shared_ptr<Var> &second)\<close>.\<close>

definition VarConcat_ctor :: "state \<Rightarrow> var_id \<Rightarrow> var_id \<Rightarrow> error + var" where
  "VarConcat_ctor st first second =
     (case Expr_ctor2 st first second of
        Inl x \<Rightarrow> Inl x
      | Inr v \<Rightarrow>
          if is_signed (vars st first) \<noteq> is_signed (vars st second)
          then Inl (VarException ''{0} is signed but {1} is not''
                      [ToString first, ToString second] [first, second])
          else Inr (v\<lparr> cls := ClsVarConcat, vars_c := [first, second],
                        var_width := width (vars st first) + width (vars st second),
                        expr_op := Concat \<rparr>))"

text \<open>
  \<^verbatim>\<open>VarConcat::VarConcat(const shared_ptr<VarConcat> &first, const shared_ptr<Var> &second)\<close>,
  the overload that appends one operand to the operands of a concatenation.
\<close>

definition VarConcat_ctor_concat :: "state \<Rightarrow> var_id \<Rightarrow> var_id \<Rightarrow> error + var" where
  "VarConcat_ctor_concat st first second =
     (case Expr_ctor2 st first second of
        Inl x \<Rightarrow> Inl x
      | Inr v \<Rightarrow>
          if is_signed (vars st first) \<noteq> is_signed (vars st second)
          then Inl (VarException ''{0} is signed but {1} is not''
                      [ToString first, ToString second] [first, second])
          else Inr (v\<lparr> cls := ClsVarConcat, vars_c := vars_c (vars st first) @ [second],
                        var_width := width (vars st first) + width (vars st second),
                        expr_op := Concat \<rparr>))"

text \<open>
  \<^verbatim>\<open>Var::concat(Var &var)\<close>: the loop over \<^verbatim>\<open>concat_vars_\<close> returns the first memoized
  node with two operands whose last one is \<^verbatim>\<open>var\<close>.
\<close>

definition concat_hit :: "state \<Rightarrow> var_id \<Rightarrow> var_id \<Rightarrow> bool" where
  "concat_hit st ptr c \<longleftrightarrow>
     length (vars_c (vars st c)) = 2 \<and> last (vars_c (vars st c)) = ptr"

definition Var_concat :: "state \<Rightarrow> var_id \<Rightarrow> var_id \<Rightarrow> error + state \<times> var_id" where
  "Var_concat st this ptr =
     (case find (concat_hit st ptr) (concat_vars (vars st this)) of
        Some c \<Rightarrow> Inr (st, c)
      | None \<Rightarrow>
          (case VarConcat_ctor st this ptr of
             Inl x \<Rightarrow> Inl x
           | Inr n \<Rightarrow>
               let (st1, i) = alloc_var st n in
               Inr (st1\<lparr>vars := (vars st1)(this := (vars st1 this)\<lparr>concat_vars :=
                          List.insert i (concat_vars (vars st1 this))\<rparr>)\<rparr>, i)))"

text \<open>
  Modelled from the spec: \<^verbatim>\<open>Var::add_concat_var\<close> is declared outside \<^verbatim>\<open>src/\<close>; it
  adds a concatenation to the signal's table of the concatenations it is a member of.
\<close>

definition add_concat_var :: "state \<Rightarrow> var_id \<Rightarrow> var_id \<Rightarrow> state" where
  "add_concat_var st v c =
     st\<lparr>vars := (vars st)(v := (vars st v)\<lparr>concat_vars := List.insert c (concat_vars (vars st v))\<rparr>)\<rparr>"

text \<open>
  \<^verbatim>\<open>VarConcat::concat(Var &var)\<close>: no table is searched; a new node with one more operand
  is built and entered in the table of the first operand. \<^verbatim>\<open>vars_[0]\<close> of an empty
  operand list has no defined result.
\<close>

definition VarConcat_concat :: "state \<Rightarrow> var_id \<Rightarrow> var_id \<Rightarrow> error + state \<times> var_id" where
  "VarConcat_concat st this ptr =
     (case VarConcat_ctor_concat st this ptr of
        Inl x \<Rightarrow> Inl x
      | Inr n \<Rightarrow>
          let (st1, i) = alloc_var st n in
          (case vars_c (vars st this) of
             [] \<Rightarrow> Inl UndefinedBehaviour
           | f # fs \<Rightarrow> Inr (add_concat_var st1 f i, i)))"

text \<open>The virtual \<^verbatim>\<open>concat\<close>: \<^verbatim>\<open>VarConcat\<close> overrides it.\<close>

definition concat_v :: "state \<Rightarrow> var_id \<Rightarrow> var_id \<Rightarrow> error + state \<times> var_id" where
  "concat_v st this ptr =
     (if cls (vars st this) = ClsVarConcat then VarConcat_concat st this ptr
      else Var_concat st this ptr)"

text \<open>\<^verbatim>\<open>Var::operator[](const std::shared_ptr<Var> &var)\<close>.\<close>

definition slice_by_var :: "state \<Rightarrow> var_id \<Rightarrow> var_id \<Rightarrow> error + state \<times> var_id" where
  "slice_by_var st this idx =
     (case VarVarSlice_ctor st this idx of
        Inl x \<Rightarrow> Inl x
      | Inr n \<Rightarrow>
          let (st1, i) = alloc_var st n in
          Inr (st1\<lparr>vars := (vars st1)(this := (vars st1 this)\<lparr>slices :=
                     List.insert i (slices (vars st1 this))\<rparr>)\<rparr>, i))"

section \<open>Parameters\<close>

text \<open>
  The range check of \<^verbatim>\<open>Const::Const(Generator*, int64_t value, uint32_t width, bool)\<close>.
  A shift by 64 or more has no defined result in the source.
\<close>

definition Const_range_check :: "int64 \<Rightarrow> uint32 \<Rightarrow> bool \<Rightarrow> error + unit" where
  "Const_range_check v w sg =
     (if sg then
        (if unat (w - 1) \<ge> 64 then Inl UndefinedBehaviour
         else
           let mn = (push_bit (unat (w - 1)) (- 1) :: int64);
               mx = (push_bit (unat (w - 1)) 1 - 1 :: int64) in
           if sint v < sint mn
           then Inl (UserException ''{0} is smaller than the minimum value ({1}) given width {2}''
                       [I64 v, I64 mn, U32 w])
           else if sint v > sint mx
           then Inl (UserException ''{0} is larger than the maximum value ({1}) given width {2}''
                       [I64 v, I64 mx, U32 w])
           else Inr ())
      else
        (if unat w \<ge> 64 then Inl UndefinedBehaviour
         else
           let mx = (push_bit (unat w) 1 - 1 :: int64) in
           if v > mx
           then Inl (UserException ''{0} is larger than the maximum value ({1}) given width {2}''
                       [I64 v, I64 mx, U32 w])
           else Inr ()))"

text \<open>
  \<^verbatim>\<open>Const::set_value\<close>: a temporary constant is built to run the range check; a
  \<^verbatim>\<open>runtime_error\<close> from it is caught and reported, and the value is then left as it was.
  (The temporary's name is the decimal rendering of the value, never a keyword.)
\<close>

definition Const_set_value :: "state \<Rightarrow> var_id \<Rightarrow> int64 \<Rightarrow> error + state" where
  "Const_set_value st c v =
     (case Const_range_check v (width (vars st c)) (is_signed (vars st c)) of
        Inr _ \<Rightarrow> Inr (st\<lparr>vars := (vars st)(c := (vars st c)\<lparr>value_c := v\<rparr>)\<rparr>)
      | Inl UndefinedBehaviour \<Rightarrow> Inl UndefinedBehaviour
      | Inl _ \<Rightarrow> Inr st)"

text \<open>A loop over a container whose body may throw: the first exception ends it.\<close>

fun for_each :: "('s \<Rightarrow> 'a \<Rightarrow> error + 's) \<Rightarrow> 's \<Rightarrow> 'a list \<Rightarrow> error + 's" where
  "for_each f s [] = Inr s"
| "for_each f s (x # xs) = (case f s x of Inl e \<Rightarrow> Inl e | Inr s' \<Rightarrow> for_each f s' xs)"

text \<open>\<^verbatim>\<open>var->var_width() = new_value\<close>: the 64-bit value is narrowed to 32 bits.\<close>

definition set_var_width :: "int64 \<Rightarrow> state \<Rightarrow> var_id \<Rightarrow> state" where
  "set_var_width v st x = st\<lparr>vars := (vars st)(x := (vars st x)\<lparr>var_width := ucast v\<rparr>)\<rparr>"

text \<open>
  \<^verbatim>\<open>Param::set_value(int64_t new_value)\<close>. The recursion follows \<^verbatim>\<open>param_params_\<close>
  through the store and need not end when parameters are chained in a cycle; the first
  argument bounds its depth.
\<close>

fun Param_set_value :: "nat \<Rightarrow> state \<Rightarrow> var_id \<Rightarrow> int64 \<Rightarrow> error + state" where
  "Param_set_value 0 st p v = Inl OutOfFuel"
| "Param_set_value (Suc n) st p v =
     (if sint v \<le> 0 \<and> param_vars (vars st p) \<noteq> []
      then Inl (VarException
             ''{0} is used for parametrizing variable width, thus cannot be non-positive ({1})''
             [ToString p, I64 v] [p])
      else
        (case Const_set_value st p v of
           Inl e \<Rightarrow> Inl e
         | Inr st1 \<Rightarrow>
             let st2 = foldl (set_var_width v) st1 (param_vars (vars st1 p)) in
             for_each (\<lambda>s q. Param_set_value n s q v) st2 (param_params (vars st2 p))))"

text \<open>
  \<^verbatim>\<open>Var::set_width_param(Param *param)\<close>. Modelled from the spec:
  \<^verbatim>\<open>Param::add_param_var\<close> is declared outside \<^verbatim>\<open>src/\<close>; it adds the signal to the
  parameter's set of dependent signals.
\<close>

definition set_width_param :: "state \<Rightarrow> var_id \<Rightarrow> var_id \<Rightarrow> error + state" where
  "set_width_param st this p =
     (if sint (value_c (vars st p)) \<le> 0
      then Inl (VarException
             ''{0} is non-positive ({1}), thus cannot be used for parametrization width''
             [ToString p, I64 (value_c (vars st p))] [p])
      else
        let st1 = st\<lparr>vars := (vars st)(this := (vars st this)
                     \<lparr>var_width := ucast (value_c (vars st p)), param := Some p\<rparr>)\<rparr>
        in Inr (st1\<lparr>vars := (vars st1)(p := (vars st1 p)
                     \<lparr>param_vars := List.insert this (param_vars (vars st1 p))\<rparr>)\<rparr>))"

section \<open>Source and sink notifications\<close>

text \<open>
  The loop of \<^verbatim>\<open>VarSlice::add_sink\<close>, \<^verbatim>\<open>VarSlice::add_source\<close> and
  \<^verbatim>\<open>set_var_parent\<close> that climbs from a node to the first ancestor whose type is not
  \<open>Slice\<close>.
\<close>

fun slice_root :: "nat \<Rightarrow> state \<Rightarrow> var_id \<Rightarrow> error + var_id" where
  "slice_root 0 st p = Inl OutOfFuel"
| "slice_root (Suc n) st p =
     (if type_v (vars st p) = Slice
      then (case parent_var (vars st p) of
              None \<Rightarrow> Inl UndefinedBehaviour
            | Some q \<Rightarrow> slice_root n st q)
      else Inr p)"

text \<open>
  Modelled from the spec: \<^verbatim>\<open>Var::add_sink\<close> and \<^verbatim>\<open>Var::add_source\<close> of the base
  class are defined outside \<^verbatim>\<open>src/\<close>. Every signal has a set of sink assignments and a
  set of source assignments; the base-class notification inserts the statement into the
  signal's own set. (\<^verbatim>\<open>Var::unassign\<close> erases from the same two sets.)
\<close>

definition Var_add_sink :: "state \<Rightarrow> var_id \<Rightarrow> stmt_id \<Rightarrow> state" where
  "Var_add_sink st v s =
     st\<lparr>vars := (vars st)(v := (vars st v)\<lparr>sinks := List.insert s (sinks (vars st v))\<rparr>)\<rparr>"

definition Var_add_source :: "state \<Rightarrow> var_id \<Rightarrow> stmt_id \<Rightarrow> state" where
  "Var_add_source st v s =
     st\<lparr>vars := (vars st)(v := (vars st v)\<lparr>sources := List.insert s (sources (vars st v))\<rparr>)\<rparr>"

text \<open>
  \<^verbatim>\<open>Const::add_sink\<close>: nothing is recorded; the constant moves to the scope that
  encloses the scope of the statement's left side, when there is one.
\<close>

definition Const_add_sink :: "state \<Rightarrow> var_id \<Rightarrow> stmt_id \<Rightarrow> error + state" where
  "Const_add_sink st c s =
     (case generator (vars st (s_left (stmts st s))) of
        None \<Rightarrow> Inl (StmtException ''Unable to find left hand side generator'' [])
      | Some g \<Rightarrow>
          (case g_parent (gens st g) of
             None \<Rightarrow> Inr st
           | Some pg \<Rightarrow> Inr (st\<lparr>vars := (vars st)(c := (vars st c)\<lparr>generator := Some pg\<rparr>)\<rparr>)))"

text \<open>
  The virtual \<^verbatim>\<open>add_sink\<close>, dispatched on the class of the node. The calls follow
  parent and operand pointers through the store; the first argument bounds their depth.
\<close>

fun add_sink :: "nat \<Rightarrow> state \<Rightarrow> var_id \<Rightarrow> stmt_id \<Rightarrow> error + state" where
  "add_sink 0 st v s = Inl OutOfFuel"
| "add_sink (Suc n) st v s =
     (case cls (vars st v) of
        ClsVar \<Rightarrow> Inr (Var_add_sink st v s)
      | ClsEnumVar \<Rightarrow> Inr (Var_add_sink st v s)
      | ClsConst \<Rightarrow> Const_add_sink st v s
      | ClsParam \<Rightarrow> Const_add_sink st v s
      | ClsEnumConst \<Rightarrow> Const_add_sink st v s
      | ClsExpr \<Rightarrow>
          (case left (vars st v) of
             None \<Rightarrow> Inl UndefinedBehaviour
           | Some l \<Rightarrow>
               (case add_sink n st l s of
                  Inl e \<Rightarrow> Inl e
                | Inr st1 \<Rightarrow>
                    (case right (vars st1 v) of
                       None \<Rightarrow> Inr st1
                     | Some r \<Rightarrow> add_sink n st1 r s)))
      | ClsConditionalExpr \<Rightarrow>
          (case (condition (vars st v), left (vars st v), right (vars st v)) of
             (Some c, Some l, Some r) \<Rightarrow>
               (case add_sink n st c s of
                  Inl e \<Rightarrow> Inl e
                | Inr st1 \<Rightarrow>
                    (case add_sink n st1 l s of
                       Inl e \<Rightarrow> Inl e
                     | Inr st2 \<Rightarrow> add_sink n st2 r s))
           | _ \<Rightarrow> Inl UndefinedBehaviour)
      | ClsVarConcat \<Rightarrow> for_each (\<lambda>st' x. add_sink n st' x s) st (vars_c (vars st v))
      | ClsVarExtend \<Rightarrow>
          (case parent_var (vars st v) of
             None \<Rightarrow> Inl UndefinedBehaviour
           | Some p \<Rightarrow> add_sink n st p s)
      | ClsVarCasted \<Rightarrow>
          (case parent_var (vars st v) of
             None \<Rightarrow> Inl UndefinedBehaviour
           | Some p \<Rightarrow> add_sink n st p s)
      | ClsVarSlice \<Rightarrow>
          (case parent_var (vars st v) of
             None \<Rightarrow> Inl UndefinedBehaviour
           | Some p \<Rightarrow>
               (case slice_root n st p of
                  Inl e \<Rightarrow> Inl e
                | Inr root \<Rightarrow> add_sink n st root s))
      | ClsVarVarSlice \<Rightarrow>
          (case parent_var (vars st v) of
             None \<Rightarrow> Inl UndefinedBehaviour
           | Some p \<Rightarrow>
               (case slice_root n st p of
                  Inl e \<Rightarrow> Inl e
                | Inr root \<Rightarrow>
                    (case add_sink n st root s of
                       Inl e \<Rightarrow> Inl e
                     | Inr st1 \<Rightarrow>
                         (case sliced_var (vars st1 v) of
                            None \<Rightarrow> Inl UndefinedBehaviour
                          | Some i \<Rightarrow> add_sink n st1 i s)))))"

text \<open>
  The virtual \<^verbatim>\<open>add_source\<close>. \<^verbatim>\<open>src/\<close> overrides it for constants, concatenations,
  extensions and the two slice classes; every other class has the base-class behaviour.
\<close>

fun add_source :: "nat \<Rightarrow> state \<Rightarrow> var_id \<Rightarrow> stmt_id \<Rightarrow> error + state" where
  "add_source 0 st v s = Inl OutOfFuel"
| "add_source (Suc n) st v s =
     (case cls (vars st v) of
        ClsVar \<Rightarrow> Inr (Var_add_source st v s)
      | ClsEnumVar \<Rightarrow> Inr (Var_add_source st v s)
      | ClsExpr \<Rightarrow> Inr (Var_add_source st v s)
      | ClsConditionalExpr \<Rightarrow> Inr (Var_add_source st v s)
      | ClsVarCasted \<Rightarrow> Inr (Var_add_source st v s)
      | ClsConst \<Rightarrow>
          Inl (VarException ''const {0} is not allowed to be driven by a net'' [ToString v] [v])
      | ClsParam \<Rightarrow>
          Inl (VarException ''const {0} is not allowed to be driven by a net'' [ToString v] [v])
      | ClsEnumConst \<Rightarrow>
          Inl (VarException ''const {0} is not allowed to be driven by a net'' [ToString v] [v])
      | ClsVarConcat \<Rightarrow> for_each (\<lambda>st' x. add_source n st' x s) st (vars_c (vars st v))
      | ClsVarExtend \<Rightarrow>
          (case parent_var (vars st v) of
             None \<Rightarrow> Inl UndefinedBehaviour
           | Some p \<Rightarrow>
               Inl (StmtException ''Cannot add source to an extended variable ({0})'' [ToString p]))
      | ClsVarSlice \<Rightarrow>
          (case parent_var (vars st v) of
             None \<Rightarrow> Inl UndefinedBehaviour
           | Some p \<Rightarrow>
               (case slice_root n st p of
                  Inl e \<Rightarrow> Inl e
                | Inr root \<Rightarrow> add_source n st root s))
      | ClsVarVarSlice \<Rightarrow>
          (case parent_var (vars st v) of
             None \<Rightarrow> Inl UndefinedBehaviour
           | Some p \<Rightarrow>
               (case slice_root n st p of
                  Inl e \<Rightarrow> Inl e
                | Inr root \<Rightarrow>
                    (case add_source n st root s of
                       Inl e \<Rightarrow> Inl e
                     | Inr st1 \<Rightarrow>
                         (case sliced_var (vars st1 v) of
                            None \<Rightarrow> Inl UndefinedBehaviour
                          | Some i \<Rightarrow> add_source n st1 i s)))))"

section \<open>Assignment\<close>

text \<open>
  Modelled from the spec: the constructor of \<^verbatim>\<open>AssignStmt\<close> is defined outside
  \<^verbatim>\<open>src/\<close> (only the class declaration in \<^verbatim>\<open>stmt.hh\<close> is there). The spec says that
  an assignment links one sink (\<^verbatim>\<open>left\<close>) and one source (\<^verbatim>\<open>right\<close>) with a kind tag,
  and that creating it registers the statement on both operands through their
  notifications, which fan out through wrapper nodes. The sets are the ones
  \<^verbatim>\<open>Var::unassign\<close> erases from: the left operand is told \<^verbatim>\<open>add_source\<close>, the right
  operand \<^verbatim>\<open>add_sink\<close>.
\<close>

definition AssignStmt_ctor ::
  "nat \<Rightarrow> state \<Rightarrow> var_id \<Rightarrow> var_id \<Rightarrow> AssignmentType \<Rightarrow> error + state \<times> stmt_id" where
  "AssignStmt_ctor fuel st l r ty =
     (let i = next_stmt st;
          st1 = st\<lparr>stmts := (stmts st)(i := \<lparr>s_left = l, s_right = r, assign_type = ty,
                                               generator_parent = None, fn_name_ln = []\<rparr>),
                    next_stmt := Suc i\<rparr>
      in case add_sink fuel st1 r i of
           Inl e \<Rightarrow> Inl e
         | Inr st2 \<Rightarrow>
             (case add_source fuel st2 l i of
                Inl e \<Rightarrow> Inl e
              | Inr st3 \<Rightarrow> Inr (st3, i)))"

text \<open>\<^verbatim>\<open>Var::assign(const std::shared_ptr<Var> &var, AssignmentType type)\<close>.\<close>

definition Var_assign ::
  "nat \<Rightarrow> state \<Rightarrow> var_id \<Rightarrow> var_id \<Rightarrow> AssignmentType \<Rightarrow> error + state \<times> stmt_id" where
  "Var_assign fuel st this v ty =
     (if type_v (vars st this) = ConstValue
      then Inl (VarException ''Cannot assign {0} to a const {1}''
                  [ToString v, Str (name (vars st this))] [this, v])
      else if type_v (vars st this) = Expression
      then Inl (VarException ''Cannot assign {0} to an expression''
                  [ToString v, Str (name (vars st this))] [this, v])
      else AssignStmt_ctor fuel st this v ty)"

text \<open>
  \<^verbatim>\<open>EnumVar::assign\<close>. \<^verbatim>\<open>is_enum()\<close> holds of enum variables and enum constants;
  \<open>enum_type\<close> is the name of the enum definition the node belongs to.
\<close>

definition is_enum :: "var \<Rightarrow> bool" where
  "is_enum v \<longleftrightarrow> cls v = ClsEnumVar \<or> cls v = ClsEnumConst"

definition EnumVar_assign ::
  "nat \<Rightarrow> state \<Rightarrow> var_id \<Rightarrow> var_id \<Rightarrow> AssignmentType \<Rightarrow> error + state \<times> stmt_id" where
  "EnumVar_assign fuel st this v ty =
     (if \<not> is_enum (vars st v)
      then Inl (VarException ''Cannot assign enum type to non enum type'' [] [this, v])
      else if enum_type (vars st v) \<noteq> enum_type (vars st this)
      then Inl (VarException ''Cannot assign different enum type'' [] [this, v])
      else Var_assign fuel st this v ty)"

text \<open>The virtual \<^verbatim>\<open>assign\<close>: \<^verbatim>\<open>VarCasted\<close> and \<^verbatim>\<open>EnumVar\<close> override it.\<close>

definition assign ::
  "nat \<Rightarrow> state \<Rightarrow> var_id \<Rightarrow> var_id \<Rightarrow> AssignmentType \<Rightarrow> error + state \<times> stmt_id" where
  "assign fuel st this v ty =
     (case cls (vars st this) of
        ClsVarCasted \<Rightarrow>
          Inl (VarException ''{0} is not allowed to be a sink'' [ToString this] [this])
      | ClsEnumVar \<Rightarrow> EnumVar_assign fuel st this v ty
      | _ \<Rightarrow> Var_assign fuel st this v ty)"

text \<open>
  Modelled from the spec: \<^verbatim>\<open>Generator::add_stmt\<close> belongs to the scope collaborator
  outside \<^verbatim>\<open>src/\<close>. It adds the statement to the scope's statement list, and the scope
  becomes the statement's owning scope.
\<close>

definition Generator_add_stmt :: "state \<Rightarrow> gen_id \<Rightarrow> stmt_id \<Rightarrow> state" where
  "Generator_add_stmt st g s =
     st\<lparr>gens := (gens st)(g := (gens st g)\<lparr>stmts_g := stmts_g (gens st g) @ [s]\<rparr>),
        stmts := (stmts st)(s := (stmts st s)\<lparr>generator_parent := Some g\<rparr>)\<rparr>"

section \<open>Relocation of sources and sinks\<close>

text \<open>\<^verbatim>\<open>VarConcat::replace_var\<close>: the first occurrence of the target among the operands.\<close>

fun replace_first :: "'a \<Rightarrow> 'a \<Rightarrow> 'a list \<Rightarrow> 'a list" where
  "replace_first t i [] = []"
| "replace_first t i (x # xs) = (if x = t then i # xs else x # replace_first t i xs)"

definition replace_var :: "state \<Rightarrow> var_id \<Rightarrow> var_id \<Rightarrow> var_id \<Rightarrow> state" where
  "replace_var st c target item =
     st\<lparr>vars := (vars st)(c := (vars st c)\<lparr>vars_c := replace_first target item (vars_c (vars st c))\<rparr>)\<rparr>"

text \<open>
  Modelled from the spec: \<^verbatim>\<open>VarSlice::set_parent(Var*)\<close> and
  \<^verbatim>\<open>VarCasted::set_parent(Var*)\<close> are declared outside \<^verbatim>\<open>src/\<close>; re-parenting a derived
  node makes it reference the replacement signal.
\<close>

definition set_parent_var :: "var_id \<Rightarrow> state \<Rightarrow> var_id \<Rightarrow> state" where
  "set_parent_var new_var st x = st\<lparr>vars := (vars st)(x := (vars st x)\<lparr>parent_var := Some new_var\<rparr>)\<rparr>"

definition move_casted :: "var_id \<Rightarrow> state \<Rightarrow> VarCastType \<times> var_id \<Rightarrow> state" where
  "move_casted new_var st e =
     (let st1 = set_parent_var new_var st (snd e) in
      if map_of (casted (vars st1 new_var)) (fst e) = None
      then st1\<lparr>vars := (vars st1)(new_var := (vars st1 new_var)\<lparr>casted :=
                   casted (vars st1 new_var) @ [e]\<rparr>)\<rparr>
      else st1)"

text \<open>
  \<^verbatim>\<open>Var::move_linked_to(Var *new_var)\<close>. Each container is handed to \<^verbatim>\<open>new_var\<close> and
  then cleared on \<^verbatim>\<open>this\<close>, in the order of the source: the slices (\<open>move_slices\<close>), the
  concatenations (the loop, then \<open>take_concats\<close>), the casts (\<open>move_casts\<close>).
\<close>

definition move_slices :: "var_id \<Rightarrow> var_id \<Rightarrow> state \<Rightarrow> state" where
  "move_slices this new_var st =
     (let st1 = foldl (set_parent_var new_var) st (slices (vars st this));
          st2 = st1\<lparr>vars := (vars st1)(new_var := (vars st1 new_var)\<lparr>slices :=
                      slices (vars st1 this)\<rparr>)\<rparr>
      in st2\<lparr>vars := (vars st2)(this := (vars st2 this)\<lparr>slices := []\<rparr>)\<rparr>)"

definition take_concats :: "var_id \<Rightarrow> var_id \<Rightarrow> state \<Rightarrow> state" where
  "take_concats this new_var st =
     (let st1 = st\<lparr>vars := (vars st)(new_var := (vars st new_var)\<lparr>concat_vars :=
                     concat_vars (vars st this)\<rparr>)\<rparr>
      in st1\<lparr>vars := (vars st1)(this := (vars st1 this)\<lparr>concat_vars := []\<rparr>)\<rparr>)"

definition move_casts :: "var_id \<Rightarrow> var_id \<Rightarrow> state \<Rightarrow> state" where
  "move_casts this new_var st =
     (let st1 = foldl (move_casted new_var) st (casted (vars st this))
      in st1\<lparr>vars := (vars st1)(this := (vars st1 this)\<lparr>casted := []\<rparr>)\<rparr>)"

fun move_linked_to :: "nat \<Rightarrow> state \<Rightarrow> var_id \<Rightarrow> var_id \<Rightarrow> error + state" where
  "move_linked_to 0 st this new_var = Inl OutOfFuel"
| "move_linked_to (Suc n) st this new_var =
     (if width (vars st new_var) \<noteq> width (vars st this)
      then Inl (VarException
             ''Try to move linked variable to a variable that doesn't match width. Need {0}, got {1}''
             [U32 (width (vars st this)), U32 (width (vars st new_var))] [this, new_var])
      else if is_signed (vars st new_var) \<noteq> is_signed (vars st this)
      then Inl (VarException
             ''Try to move linked variable to a variable that doesn't match sign. Need {0}, got {1}''
             [Str (if is_signed (vars st this) then ''signed'' else ''unsigned''),
              Str (if is_signed (vars st new_var) then ''signed'' else ''unsigned'')]
             [this, new_var])
      else
        (case for_each
                (\<lambda>s c. case move_linked_to n s c new_var of
                          Inl e \<Rightarrow> Inl e
                        | Inr s1 \<Rightarrow> Inr (replace_var s1 c this new_var))
                (move_slices this new_var st)
                (concat_vars (vars (move_slices this new_var st) this)) of
           Inl e \<Rightarrow> Inl e
         | Inr st4 \<Rightarrow> Inr (move_casts this new_var (take_concats this new_var st4))))"

text \<open>
  Modelled from the spec: \<^verbatim>\<open>VarSlice::slice_var\<close> is declared outside \<^verbatim>\<open>src/\<close>. The
  spec re-roots a slice chain by re-slicing the replacement with the same bounds; a
  variable-indexed slice is re-applied with the same index signal.
\<close>

definition slice_var :: "state \<times> var_id \<Rightarrow> var_id \<Rightarrow> error + state \<times> var_id" where
  "slice_var sv sl =
     (case sv of (st, cur) \<Rightarrow>
        (if cls (vars st sl) = ClsVarVarSlice
         then (case sliced_var (vars st sl) of
                 None \<Rightarrow> Inl UndefinedBehaviour
               | Some i \<Rightarrow> slice_by_var st cur i)
         else slice_op st cur (high (vars st sl)) (low (vars st sl))))"

text \<open>The first loop of \<^verbatim>\<open>set_var_parent\<close>: the slices from \<^verbatim>\<open>var\<close> up, and the root.\<close>

fun collect_slices :: "nat \<Rightarrow> state \<Rightarrow> var_id \<Rightarrow> error + var_id list \<times> var_id" where
  "collect_slices 0 st p = Inl OutOfFuel"
| "collect_slices (Suc n) st p =
     (if type_v (vars st p) = Slice
      then (case parent_var (vars st p) of
              None \<Rightarrow> Inl UndefinedBehaviour
            | Some q \<Rightarrow>
                (case collect_slices n st q of
                   Inl e \<Rightarrow> Inl e
                 | Inr (ss, root) \<Rightarrow> Inr (p # ss, root)))
      else Inr ([], p))"

text \<open>
  \<^verbatim>\<open>set_var_parent(var, target, new_var, check_target)\<close>; the result carries the new
  value of the reference \<^verbatim>\<open>var\<close>.
\<close>

definition set_var_parent ::
  "nat \<Rightarrow> state \<Rightarrow> var_id \<Rightarrow> var_id \<Rightarrow> var_id \<Rightarrow> bool \<Rightarrow> error + state \<times> var_id" where
  "set_var_parent fuel st v target new_var check_target =
     (case collect_slices fuel st v of
        Inl e \<Rightarrow> Inl e
      | Inr (ss, root) \<Rightarrow>
          if root \<noteq> target
          then (if check_target then Inl (InternalException ''Target not found'') else Inr (st, v))
          else if ss = [] then Inl (InternalException ''Slice cannot be null'')
          else for_each slice_var (st, new_var) (rev ss))"

definition set_left_e :: "state \<Rightarrow> var_id \<Rightarrow> var_id option \<Rightarrow> state" where
  "set_left_e st e x = st\<lparr>vars := (vars st)(e := (vars st e)\<lparr>left := x\<rparr>)\<rparr>"

definition set_right_e :: "state \<Rightarrow> var_id \<Rightarrow> var_id option \<Rightarrow> state" where
  "set_right_e st e x = st\<lparr>vars := (vars st)(e := (vars st e)\<lparr>right := x\<rparr>)\<rparr>"

text \<open>The error-propagating sequencing of two steps.\<close>

definition and_then :: "error + 'a \<Rightarrow> ('a \<Rightarrow> error + 'b) \<Rightarrow> error + 'b" where
  "and_then m f = (case m of Inl e \<Rightarrow> Inl e | Inr x \<Rightarrow> f x)"

text \<open>
  \<^verbatim>\<open>change_var_expr(expr, target, new_var)\<close>. After \<^verbatim>\<open>expr->left = new_var\<close> the call
  \<^verbatim>\<open>expr->left->move_linked_to(new_var)\<close> is made on the member just written.
\<close>

fun change_var_expr :: "nat \<Rightarrow> state \<Rightarrow> var_id \<Rightarrow> var_id \<Rightarrow> var_id \<Rightarrow> error + state" where
  "change_var_expr 0 st e target new_var = Inl OutOfFuel"
| "change_var_expr (Suc n) st e target new_var =
     and_then (case left (vars st e) of
                 None \<Rightarrow> Inl UndefinedBehaviour
               | Some l \<Rightarrow> if type_v (vars st l) = Expression
                           then change_var_expr n st l target new_var else Inr st)
     (\<lambda>st1. and_then (case right (vars st1 e) of
                 None \<Rightarrow> Inr st1
               | Some r \<Rightarrow> if type_v (vars st1 r) = Expression
                           then change_var_expr n st1 r target new_var else Inr st1)
     (\<lambda>st2. and_then (if left (vars st2 e) = Some target
                       then (let s = set_left_e st2 e (Some new_var) in
                             case left (vars s e) of
                               None \<Rightarrow> Inl UndefinedBehaviour
                             | Some l \<Rightarrow> move_linked_to n s l new_var)
                       else Inr st2)
     (\<lambda>st3. and_then (if right (vars st3 e) = Some target
                       then (let s = set_right_e st3 e (Some new_var) in
                             case right (vars s e) of
                               None \<Rightarrow> Inl UndefinedBehaviour
                             | Some r \<Rightarrow> move_linked_to n s r new_var)
                       else Inr st3)
     (\<lambda>st4. and_then (case left (vars st4 e) of
                 None \<Rightarrow> Inl UndefinedBehaviour
               | Some l \<Rightarrow> if type_v (vars st4 l) = Slice
                           then (case set_var_parent n st4 l target new_var False of
                                   Inl x \<Rightarrow> Inl x
                                 | Inr (s, v) \<Rightarrow> Inr (set_left_e s e (Some v)))
                           else Inr st4)
     (\<lambda>st5. and_then (case right (vars st5 e) of
                 None \<Rightarrow> Inr st5
               | Some r \<Rightarrow> if type_v (vars st5 r) = Slice
                           then (case set_var_parent n st5 r target new_var False of
                                   Inl x \<Rightarrow> Inl x
                                 | Inr (s, v) \<Rightarrow> Inr (set_right_e s e (Some v)))
                           else Inr st5)
     (\<lambda>st6. if expr_op (vars st6 e) = Concat
             then Inr (replace_var st6 e target new_var) else Inr st6))))))"

definition set_left_s :: "state \<Rightarrow> stmt_id \<Rightarrow> var_id \<Rightarrow> state" where
  "set_left_s st s x = st\<lparr>stmts := (stmts st)(s := (stmts st s)\<lparr>s_left := x\<rparr>)\<rparr>"

definition set_right_s :: "state \<Rightarrow> stmt_id \<Rightarrow> var_id \<Rightarrow> state" where
  "set_right_s st s x = st\<lparr>stmts := (stmts st)(s := (stmts st s)\<lparr>s_right := x\<rparr>)\<rparr>"

text \<open>
  \<^verbatim>\<open>stmt_set_left(stmt, target, new_var)\<close>. \<^verbatim>\<open>left\<close> is a reference to the statement's
  member (\<^verbatim>\<open>auto &left = stmt->left()\<close>), so after \<^verbatim>\<open>stmt->set_left(new_var)\<close> the call
  \<^verbatim>\<open>left->move_linked_to(new_var)\<close> reads the member again.
\<close>

definition stmt_set_left :: "nat \<Rightarrow> state \<Rightarrow> stmt_id \<Rightarrow> var_id \<Rightarrow> var_id \<Rightarrow> error + state" where
  "stmt_set_left fuel st s target new_var =
     (let l = s_left (stmts st s); ty = type_v (vars st l) in
      if ty = Base \<or> ty = PortIO \<or> ty = ConstValue then
        (if l = target
         then (let st1 = set_left_s st s new_var in
               move_linked_to fuel st1 (s_left (stmts st1 s)) new_var)
         else Inl (InternalException ''Target not found''))
      else if ty = Slice then
        (case set_var_parent fuel st l target new_var True of
           Inl e \<Rightarrow> Inl e
         | Inr (st1, v) \<Rightarrow> Inr (set_left_s st1 s v))
      else if ty = Expression then change_var_expr fuel st l target new_var
      else Inr st)"

text \<open>\<^verbatim>\<open>stmt_set_right(stmt, target, new_var)\<close>, the same on the right operand.\<close>

definition stmt_set_right :: "nat \<Rightarrow> state \<Rightarrow> stmt_id \<Rightarrow> var_id \<Rightarrow> var_id \<Rightarrow> error + state" where
  "stmt_set_right fuel st s target new_var =
     (let r = s_right (stmts st s); ty = type_v (vars st r) in
      if ty = Base \<or> ty = PortIO \<or> ty = ConstValue then
        (if r = target
         then (let st1 = set_right_s st s new_var in
               move_linked_to fuel st1 (s_right (stmts st1 s)) new_var)
         else Inl (InternalException ''Target not found''))
      else if ty = Slice then
        (case set_var_parent fuel st r target new_var True of
           Inl e \<Rightarrow> Inl e
         | Inr (st1, v) \<Rightarrow> Inr (set_right_s st1 s v))
      else if ty = Expression then change_var_expr fuel st r target new_var
      else Inr st)"

definition add_debug :: "state \<Rightarrow> gen_id \<Rightarrow> stmt_id \<Rightarrow> nat \<Rightarrow> state" where
  "add_debug st parent s ln =
     (if debug (gens st parent)
      then st\<lparr>stmts := (stmts st)(s := (stmts st s)\<lparr>fn_name_ln :=
                 fn_name_ln (stmts st s) @ [(''expr.cc'', ln)]\<rparr>)\<rparr>
      else st)"

text \<open>
  Modelled from the spec: \<^verbatim>\<open>Stmt::generator_parent()\<close> is defined outside \<^verbatim>\<open>src/\<close>.
  It is the statement's owning scope; a statement without a resolvable owning scope is a
  statement-level structural error.
\<close>

definition stmt_generator_parent :: "state \<Rightarrow> stmt_id \<Rightarrow> error + gen_id" where
  "stmt_generator_parent st s =
     (case generator_parent (stmts st s) of
        None \<Rightarrow> Inl (StmtException ''statement has no owning generator'' [])
      | Some g \<Rightarrow> Inr g)"

text \<open>
  The body of the loop of \<^verbatim>\<open>Var::move_src_to\<close> for one statement of
  \<^verbatim>\<open>var->sources_\<close>; \<^verbatim>\<open>parametrized()\<close> is \<^verbatim>\<open>param_ != nullptr\<close>.
\<close>

definition move_src_step ::
  "nat \<Rightarrow> var_id \<Rightarrow> var_id \<Rightarrow> gen_id \<Rightarrow> state \<Rightarrow> stmt_id \<Rightarrow> error + state" where
  "move_src_step fuel v new_var parent st s =
     and_then (stmt_generator_parent st s)
     (\<lambda>g. if g \<noteq> parent then Inr st
           else and_then (stmt_set_left fuel st s v new_var)
     (\<lambda>st1. and_then (add_source fuel (add_debug st1 parent s 927) new_var s)
     (\<lambda>st2. case param (vars st2 (s_right (stmts st2 s))) of
               None \<Rightarrow> Inr st2
             | Some p \<Rightarrow> if param (vars st2 new_var) = None
                         then set_width_param st2 new_var p else Inr st2)))"

text \<open>\<^verbatim>\<open>Var::move_src_to(Var *var, Var *new_var, Generator *parent, bool keep_connection)\<close>.\<close>

definition move_src_to ::
  "nat \<Rightarrow> state \<Rightarrow> var_id \<Rightarrow> var_id \<Rightarrow> gen_id \<Rightarrow> bool \<Rightarrow> error + state" where
  "move_src_to fuel st v new_var parent keep_connection =
     (if type_v (vars st v) = Expression \<or> type_v (vars st v) = ConstValue
      then Inl (VarException ''Only base or port variables are allowed.'' [] [v, new_var])
      else and_then (for_each (move_src_step fuel v new_var parent) st (sources (vars st v)))
     (\<lambda>st1. let st2 = st1\<lparr>vars := (vars st1)(v := (vars st1 v)\<lparr>sources := []\<rparr>)\<rparr> in
             if keep_connection
             then and_then (assign fuel st2 v new_var Undefined)
                    (\<lambda>(st3, s). Inr (Generator_add_stmt (add_debug st3 parent s 942) parent s))
             else Inr st2))"

text \<open>The loop body and the whole of \<^verbatim>\<open>Var::move_sink_to\<close>.\<close>

definition move_sink_step ::
  "nat \<Rightarrow> var_id \<Rightarrow> var_id \<Rightarrow> gen_id \<Rightarrow> state \<Rightarrow> stmt_id \<Rightarrow> error + state" where
  "move_sink_step fuel v new_var parent st s =
     and_then (stmt_generator_parent st s)
     (\<lambda>g. if g \<noteq> parent then Inr st
           else and_then (stmt_set_right fuel st s v new_var)
     (\<lambda>st1. and_then (add_sink fuel (add_debug st1 parent s 959) new_var s)
     (\<lambda>st2. case param (vars st2 (s_left (stmts st2 s))) of
               None \<Rightarrow> Inr st2
             | Some p \<Rightarrow> if param (vars st2 new_var) = None
                         then set_width_param st2 new_var p else Inr st2)))"

definition move_sink_to ::
  "nat \<Rightarrow> state \<Rightarrow> var_id \<Rightarrow> var_id \<Rightarrow> gen_id \<Rightarrow> bool \<Rightarrow> error + state" where
  "move_sink_to fuel st v new_var parent keep_connection =
     (if type_v (vars st v) = Expression \<or> type_v (vars st v) = ConstValue
      then Inl (VarException ''Only base or port variables are allowed.'' [] [v, new_var])
      else and_then (for_each (move_sink_step fuel v new_var parent) st (sinks (vars st v)))
     (\<lambda>st1. let st2 = st1\<lparr>vars := (vars st1)(v := (vars st1 v)\<lparr>sinks := []\<rparr>)\<rparr> in
             if keep_connection
             then and_then (assign fuel st2 new_var v Undefined)
                    (\<lambda>(st3, s). Inr (Generator_add_stmt (add_debug st3 parent s 974) parent s))
             else Inr st2))"

section \<open>Example designs\<close>

text \<open>
  A small design in one scope (generator 0): the scalar signals \<open>a\<close> (8 bits), \<open>b\<close>, \<open>c\<close>,
  \<open>d\<close> (4 bits; \<open>c\<close> and \<open>d\<close> signed), \<open>idx\<close> (3 bits), \<open>sel\<close> (2 bits) and the array
  \<open>mem\<close> of four 8-bit elements. No statement has been made yet.
\<close>

definition no_stmt :: stmt where
  "no_stmt = \<lparr>s_left = 0, s_right = 0, assign_type = Undefined,
              generator_parent = None, fn_name_ln = []\<rparr>"

definition top_gen :: gen where
  "top_gen = \<lparr>g_parent = None, debug = False, stmts_g = []\<rparr>"

definition ex_st :: state where
  "ex_st = \<lparr> vars = (\<lambda>_. init_var None [] 0 [] False Base)
                (0 := init_var (Some 0) ''a'' 8 [1] False Base,
                 1 := init_var (Some 0) ''b'' 4 [1] False Base,
                 2 := init_var (Some 0) ''c'' 4 [1] True Base,
                 3 := init_var (Some 0) ''mem'' 8 [4] False Base,
                 4 := init_var (Some 0) ''idx'' 3 [1] False Base,
                 5 := init_var (Some 0) ''sel'' 2 [1] False Base,
                 6 := init_var (Some 0) ''d'' 4 [1] True Base),
             stmts = (\<lambda>_. no_stmt),
             gens = (\<lambda>_. top_gen),
             next_var = 7, next_stmt = 0, const_gen = None \<rparr>"

text \<open>
  The example design after \<^verbatim>\<open>a.concat(b)\<close> (\<open>ex_joined\<close>, the concatenation is node 7);
  after that and \<^verbatim>\<open>b.signed = True\<close> (\<open>ex_memo\<close>; the binding's setter writes
  \<^verbatim>\<open>is_signed_\<close>); and after \<^verbatim>\<open>a.concat(b).concat(sel)\<close> (\<open>ex_joined_sel\<close>).
\<close>

definition ex_joined :: state where
  "ex_joined = (case concat_v ex_st 0 1 of Inr (st1, c) \<Rightarrow> st1 | Inl e \<Rightarrow> ex_st)"

definition ex_memo :: state where
  "ex_memo = ex_joined\<lparr>vars := (vars ex_joined)(1 := (vars ex_joined 1)\<lparr>is_signed := True\<rparr>)\<rparr>"

definition ex_joined_sel :: state where
  "ex_joined_sel = (case concat_v ex_joined 7 5 of Inr (st1, c) \<Rightarrow> st1 | Inl e \<Rightarrow> ex_joined)"

section \<open>The signal behind a view\<close>









section \<open>What a relocation leaves alone\<close>

text \<open>
  \<open>stmt_part\<close> is the part of the store that holds the statements. \<open>only_adds s st st'\<close>
  says that \<open>st'\<close> has the statements of \<open>st\<close> and that no link set has gained anything
  but \<open>s\<close>.
\<close>

definition stmt_part :: "state \<Rightarrow> (stmt_id \<Rightarrow> stmt) \<times> stmt_id" where
  "stmt_part st = (stmts st, next_stmt st)"

definition only_adds :: "stmt_id \<Rightarrow> state \<Rightarrow> state \<Rightarrow> bool" where
  "only_adds s st st' \<longleftrightarrow>
     stmt_part st' = stmt_part st \<and>
     (\<forall>x. set (sources (vars st' x)) \<subseteq> insert s (set (sources (vars st x))) \<and>
          set (sinks (vars st' x)) \<subseteq> insert s (set (sinks (vars st x))))"

text \<open>
  The example design with two more 8-bit signals \<open>x\<close> (node 7) and \<open>y\<close> (node 8), a
  third 8-bit signal \<open>z\<close> (node 9), and a second scope, generator 1, inside
  generator 0. Statement 0 is \<open>a := x\<close> in scope 0, statement 1 is \<open>a := y\<close> in scope 1;
  both are registered on their operands.
\<close>

definition ex_wired :: state where
  "ex_wired =
     ex_st\<lparr>vars := (vars ex_st)
              (0 := (init_var (Some 0) ''a'' 8 [1] False Base)\<lparr>sources := [0, 1]\<rparr>,
               7 := (init_var (Some 0) ''x'' 8 [1] False Base)\<lparr>sinks := [0]\<rparr>,
               8 := (init_var (Some 0) ''y'' 8 [1] False Base)\<lparr>sinks := [1]\<rparr>,
               9 := init_var (Some 0) ''z'' 8 [1] False Base),
           stmts := (\<lambda>_. no_stmt)
              (0 := \<lparr>s_left = 0, s_right = 7, assign_type = Undefined,
                     generator_parent = Some 0, fn_name_ln = []\<rparr>,
               1 := \<lparr>s_left = 0, s_right = 8, assign_type = Undefined,
                     generator_parent = Some 1, fn_name_ln = []\<rparr>),
           gens := (\<lambda>_. top_gen)
              (0 := \<lparr>g_parent = None, debug = False, stmts_g = [0]\<rparr>,
               1 := \<lparr>g_parent = Some 0, debug = False, stmts_g = [1]\<rparr>),
           next_var := 10, next_stmt := 2\<rparr>"

text \<open>
  \<open>ex_wired\<close> after \<^verbatim>\<open>Var::move_src_to(a, c, scope 0, false)\<close>, and after
  \<^verbatim>\<open>Var::move_src_to(a, z, scope 0, true)\<close>.
\<close>

definition ex_moved :: state where
  "ex_moved = (case move_src_to 4 ex_wired 0 2 0 False of Inr st1 \<Rightarrow> st1 | Inl e \<Rightarrow> ex_wired)"

definition ex_kept :: state where
  "ex_kept = (case move_src_to 4 ex_wired 0 9 0 True of Inr st1 \<Rightarrow> st1 | Inl e \<Rightarrow> ex_wired)"

text \<open>\<open>ex_wired\<close> after \<^verbatim>\<open>Var::move_sink_to(x, z, scope 0, false)\<close>.\<close>

definition ex_sunk :: state where
  "ex_sunk = (case move_sink_to 4 ex_wired 7 9 0 False of Inr st1 \<Rightarrow> st1 | Inl e \<Rightarrow> ex_wired)"

text \<open>
  \<open>untouched S st cur\<close>: no statement has been created since \<open>st\<close>, and every statement
  whose owning scope in \<open>st\<close> is not \<open>S\<close> is in \<open>cur\<close> what it was in \<open>st\<close>.
\<close>

definition untouched :: "gen_id \<Rightarrow> state \<Rightarrow> state \<Rightarrow> bool" where
  "untouched S st cur \<longleftrightarrow> next_stmt cur = next_stmt st \<and>
     (\<forall>y. generator_parent (stmts st y) \<noteq> Some S \<longrightarrow> stmts cur y = stmts st y)"

text \<open>
  What a relocation onto the replacement \<open>B\<close> leaves of the nodes. \<open>own_views B s\<close>: \<open>B\<close>
  is allocated, is a member of no concatenation, and its tables of slices and casts hold
  allocated nodes whose parent is \<open>B\<close>. \<open>nodes_kept st s\<close>: every node allocated in \<open>st\<close>
  has in \<open>s\<close> the class, the type and the parent it had. \<open>parents_allocated st\<close>: the
  parent of an allocated node is allocated. \<open>view_of st w r\<close>: \<open>w\<close> is \<open>r\<close> or is linked to
  \<open>r\<close> through the parents of slices, extensions and casts. \<open>shape_eq s s'\<close>: no node
  has been allocated and no class, type, parent or table has changed. \<open>relocating B st s\<close>:
  the store \<open>s\<close> has kept the nodes of \<open>st\<close>, and the tables of \<open>B\<close> hold its own views.
\<close>

definition own_views :: "var_id \<Rightarrow> state \<Rightarrow> bool" where
  "own_views B s \<longleftrightarrow> B < next_var s \<and> concat_vars (vars s B) = [] \<and>
     (\<forall>y\<in>set (slices (vars s B)). y < next_var s \<and> parent_var (vars s y) = Some B) \<and>
     (\<forall>e\<in>set (casted (vars s B)). snd e < next_var s \<and> parent_var (vars s (snd e)) = Some B)"

definition nodes_kept :: "state \<Rightarrow> state \<Rightarrow> bool" where
  "nodes_kept st s \<longleftrightarrow> next_var st \<le> next_var s \<and>
     (\<forall>y<next_var st. cls (vars s y) = cls (vars st y) \<and> type_v (vars s y) = type_v (vars st y) \<and>
                        parent_var (vars s y) = parent_var (vars st y))"

definition parents_allocated :: "state \<Rightarrow> bool" where
  "parents_allocated st \<longleftrightarrow>
     (\<forall>y<next_var st. \<forall>q. parent_var (vars st y) = Some q \<longrightarrow> q < next_var st)"

inductive view_of :: "state \<Rightarrow> var_id \<Rightarrow> var_id \<Rightarrow> bool" for st where
  self: "view_of st r r"
| up: "cls (vars st w) \<in> {ClsVarSlice, ClsVarVarSlice, ClsVarExtend, ClsVarCasted} \<Longrightarrow>
       parent_var (vars st w) = Some p \<Longrightarrow> view_of st p r \<Longrightarrow> view_of st w r"

definition shape_eq :: "state \<Rightarrow> state \<Rightarrow> bool" where
  "shape_eq s s' \<longleftrightarrow> next_var s' = next_var s \<and>
     (\<forall>y. cls (vars s' y) = cls (vars s y) \<and> type_v (vars s' y) = type_v (vars s y) \<and>
          parent_var (vars s' y) = parent_var (vars s y) \<and>
          slices (vars s' y) = slices (vars s y) \<and> casted (vars s' y) = casted (vars s y) \<and>
          concat_vars (vars s' y) = concat_vars (vars s y))"

definition relocating :: "var_id \<Rightarrow> state \<Rightarrow> state \<Rightarrow> bool" where
  "relocating B st s \<longleftrightarrow> nodes_kept st s \<and> own_views B s"

text \<open>
  \<open>ex_sliced\<close>: \<open>ex_wired\<close> with the slice \<^verbatim>\<open>a[3:0]\<close> as node 10, statement 1 of scope 1
  being \<^verbatim>\<open>a[3:0] := y\<close>; and the design after \<^verbatim>\<open>Var::move_src_to(a, z, scope 0, false)\<close>.
  \<open>ex_shared\<close>: the expression \<open>a + x\<close> (node 10) is the right operand of statement 0,
  \<open>y := a + x\<close> in scope 0, and of statement 1, \<open>w := a + x\<close> in scope 1; and the design
  after \<^verbatim>\<open>Var::move_sink_to(a, z, scope 0, false)\<close>.
\<close>

definition ex_sliced :: state where
  "ex_sliced =
     ex_wired\<lparr>vars := (vars ex_wired)
              (0 := (init_var (Some 0) ''a'' 8 [1] False Base)\<lparr>sources := [0, 1], slices := [10]\<rparr>,
               10 := (init_var (Some 0) [] 4 [1] False Slice)
                       \<lparr>cls := ClsVarSlice, parent_var := Some 0, high := 3, low := 0,
                        var_high := 3, var_low := 0\<rparr>),
           stmts := (stmts ex_wired)
              (1 := \<lparr>s_left = 10, s_right = 8, assign_type = Undefined,
                     generator_parent = Some 1, fn_name_ln = []\<rparr>),
           next_var := 11\<rparr>"

definition ex_sliced_moved :: state where
  "ex_sliced_moved =
     (case move_src_to 4 ex_sliced 0 9 0 False of Inr st1 \<Rightarrow> st1 | Inl e \<Rightarrow> ex_sliced)"

definition ex_shared :: state where
  "ex_shared =
     ex_st\<lparr>vars := (vars ex_st)
              (0 := (init_var (Some 0) ''a'' 8 [1] False Base)\<lparr>sinks := [0, 1]\<rparr>,
               7 := (init_var (Some 0) ''x'' 8 [1] False Base)\<lparr>sinks := [0, 1]\<rparr>,
               8 := (init_var (Some 0) ''y'' 8 [1] False Base)\<lparr>sources := [0]\<rparr>,
               9 := init_var (Some 0) ''z'' 8 [1] False Base,
               10 := (init_var (Some 0) [] 8 [1] False Expression)
                       \<lparr>cls := ClsExpr, expr_op := Add, left := Some 0, right := Some 7\<rparr>,
               11 := (init_var (Some 0) ''w'' 8 [1] False Base)\<lparr>sources := [1]\<rparr>),
           stmts := (\<lambda>_. no_stmt)
              (0 := \<lparr>s_left = 8, s_right = 10, assign_type = Undefined,
                     generator_parent = Some 0, fn_name_ln = []\<rparr>,
               1 := \<lparr>s_left = 11, s_right = 10, assign_type = Undefined,
                     generator_parent = Some 1, fn_name_ln = []\<rparr>),
           gens := (\<lambda>_. top_gen)
              (0 := \<lparr>g_parent = None, debug = False, stmts_g = [0]\<rparr>,
               1 := \<lparr>g_parent = Some 0, debug = False, stmts_g = [1]\<rparr>),
           next_var := 12, next_stmt := 2\<rparr>"

definition ex_shared_moved :: state where
  "ex_shared_moved =
     (case move_sink_to 4 ex_shared 0 9 0 False of Inr st1 \<Rightarrow> st1 | Inl e \<Rightarrow> ex_shared)"

section \<open>Chains of parameters\<close>

text \<open>
  \<open>chained st p q\<close>: \<open>q\<close> is \<open>p\<close> or is reached from \<open>p\<close> through \<^verbatim>\<open>param_params_\<close>.
  \<open>chain_within d st p\<close>: no path of \<^verbatim>\<open>param_params_\<close> links from \<open>p\<close> is longer than \<open>d\<close>.
  \<open>range_ok v w q\<close>: the value \<open>v\<close> passes the range check of the constant \<open>q\<close> when the
  element width of \<open>q\<close> is \<open>w\<close>; \<open>range_defined v w q\<close>: that check has a defined
  outcome (no shift by 64 or more). \<open>width_step v st s\<close>: \<open>s\<close> differs from \<open>st\<close> at most in
  element widths that have become \<open>v\<close> (narrowed) and in values that have become \<open>v\<close>.
\<close>

inductive chained :: "state \<Rightarrow> var_id \<Rightarrow> var_id \<Rightarrow> bool" for st where
  self: "chained st p p"
| link: "c \<in> set (param_params (vars st p)) \<Longrightarrow> chained st c q \<Longrightarrow> chained st p q"

fun chain_within :: "nat \<Rightarrow> state \<Rightarrow> var_id \<Rightarrow> bool" where
  "chain_within 0 st p \<longleftrightarrow> param_params (vars st p) = []"
| "chain_within (Suc d) st p \<longleftrightarrow> (\<forall>q\<in>set (param_params (vars st p)). chain_within d st q)"

definition range_ok :: "int64 \<Rightarrow> uint32 \<Rightarrow> var \<Rightarrow> bool" where
  "range_ok v w q \<longleftrightarrow>
     Const_range_check v (foldl (\<lambda>a i. a * i) w (size_v q)) (is_signed q) = Inr ()"

definition range_defined :: "int64 \<Rightarrow> uint32 \<Rightarrow> var \<Rightarrow> bool" where
  "range_defined v w q \<longleftrightarrow>
     Const_range_check v (foldl (\<lambda>a i. a * i) w (size_v q)) (is_signed q) \<noteq> Inl UndefinedBehaviour"

definition width_step :: "int64 \<Rightarrow> state \<Rightarrow> state \<Rightarrow> bool" where
  "width_step v st s \<longleftrightarrow>
     (\<forall>y. param_vars (vars s y) = param_vars (vars st y) \<and>
          param_params (vars s y) = param_params (vars st y) \<and>
          size_v (vars s y) = size_v (vars st y) \<and>
          is_signed (vars s y) = is_signed (vars st y) \<and>
          (var_width (vars s y) = var_width (vars st y) \<or> var_width (vars s y) = ucast v) \<and>
          (value_c (vars s y) = value_c (vars st y) \<or> value_c (vars s y) = v))"

text \<open>
  \<open>parametrized_in_chain st p y\<close>: \<open>y\<close> is a dependent signal of \<open>p\<close> or of a parameter
  chained to \<open>p\<close>. \<open>chain_step v st p s\<close>: \<open>s\<close> is \<open>st\<close> but for element widths of such
  dependent signals that have become \<open>v\<close> (narrowed), and for values of parameters of the
  chain that have become \<open>v\<close> after passing the range check at the width they had in
  \<open>st\<close> or, for one that is itself such a dependent signal, at the width \<open>v\<close>.
\<close>

definition parametrized_in_chain :: "state \<Rightarrow> var_id \<Rightarrow> var_id \<Rightarrow> bool" where
  "parametrized_in_chain st p y \<longleftrightarrow> (\<exists>c. chained st p c \<and> y \<in> set (param_vars (vars st c)))"

definition chain_step :: "int64 \<Rightarrow> state \<Rightarrow> var_id \<Rightarrow> state \<Rightarrow> bool" where
  "chain_step v st p s \<longleftrightarrow> width_step v st s \<and>
     (\<forall>y. (var_width (vars s y) = var_width (vars st y) \<or>
             var_width (vars s y) = ucast v \<and> parametrized_in_chain st p y) \<and>
          (value_c (vars s y) = value_c (vars st y) \<or>
             value_c (vars s y) = v \<and> chained st p y \<and>
             (range_ok v (var_width (vars st y)) (vars st y) \<or>
              parametrized_in_chain st p y \<and> range_ok v (ucast v) (vars st y))))"

text \<open>
  The example design with two parameters: \<open>P\<close> (node 7, 32 bits, value 8) with the
  dependent signals \<open>u\<close> and \<open>w\<close> (nodes 9 and 10), and \<open>Q\<close> (node 8, 4 bits, value 8),
  chained to \<open>P\<close>, with the dependent signal \<open>t\<close> (node 11). \<open>ex_params_set\<close> is the design
  after \<open>P\<close> has been set to 16.
\<close>

definition ex_params :: state where
  "ex_params =
     ex_st\<lparr>vars := (vars ex_st)
              (7 := (init_var (Some 0) ''0'' 32 [1] False Parameter)
                      \<lparr>cls := ClsParam, value_c := 8, param_vars := [9, 10], param_params := [8]\<rparr>,
               8 := (init_var (Some 0) ''0'' 4 [1] False Parameter)
                      \<lparr>cls := ClsParam, value_c := 8, param_vars := [11]\<rparr>,
               9 := (init_var (Some 0) ''u'' 8 [1] False Base)\<lparr>param := Some 7\<rparr>,
               10 := (init_var (Some 0) ''w'' 8 [1] False Base)\<lparr>param := Some 7\<rparr>,
               11 := (init_var (Some 0) ''t'' 8 [1] False Base)\<lparr>param := Some 8\<rparr>),
           next_var := 12\<rparr>"

definition ex_params_set :: state where
  "ex_params_set =
     (case Param_set_value 3 ex_params 7 16 of Inr st1 \<Rightarrow> st1 | Inl e \<Rightarrow> ex_params)"

text \<open>\<open>ex_params\<close> after \<open>P\<close> has been set to 100.\<close>

definition ex_params_big :: state where
  "ex_params_big =
     (case Param_set_value 3 ex_params 7 100 of Inr st1 \<Rightarrow> st1 | Inl e \<Rightarrow> ex_params)"

section \<open>Verified properties\<close>

subsection \<open>Basic facts\<close>

lemma Var_ctor_empty_name:
  "m \<noteq> None \<Longrightarrow> Var_ctor m [] w sz sg ty = Inr (init_var m [] w sz sg ty)"
  by (simp add: Var_ctor_def is_valid_variable_name_def)


lemma ex_vars:
  "vars ex_st 0 = init_var (Some 0) ''a'' 8 [1] False Base"
  "vars ex_st 1 = init_var (Some 0) ''b'' 4 [1] False Base"
  "vars ex_st (Suc 0) = init_var (Some 0) ''b'' 4 [1] False Base"
  "vars ex_st 2 = init_var (Some 0) ''c'' 4 [1] True Base"
  "vars ex_st 3 = init_var (Some 0) ''mem'' 8 [4] False Base"
  "vars ex_st 4 = init_var (Some 0) ''idx'' 3 [1] False Base"
  "vars ex_st 5 = init_var (Some 0) ''sel'' 2 [1] False Base"
  "vars ex_st 6 = init_var (Some 0) ''d'' 4 [1] True Base"
  "next_var ex_st = 7"
  by (simp_all add: ex_st_def)

lemma set_parent_succeeds:
  assumes "generator (vars st l) \<noteq> None"
    "case r of Some rj \<Rightarrow> generator (vars st rj) \<noteq> None | None \<Rightarrow> True"
    "left e = Some l" "right e = r"
  shows "\<exists>e'. set_parent st e = Inr e'"
  using assms
  by (cases r) (auto simp: set_parent_def Let_def gen_parent_of_def)

lemma VarSlice_ctor_parent: "VarSlice_ctor st p h l = Inr v \<Longrightarrow> parent_var v = Some p"
  by (auto simp: VarSlice_ctor_def Var_ctor_def Let_def split: if_splits)

lemma VarVarSlice_ctor_parent: "VarVarSlice_ctor st p i = Inr v \<Longrightarrow> parent_var v = Some p"
  by (auto simp: VarVarSlice_ctor_def Let_def split: sum.splits if_splits list.splits
      dest: VarSlice_ctor_parent)

subsection \<open>Operator expressions (C2)\<close>




subsection \<open>Range slices (C3)\<close>

text \<open>
  Slicing a scalar signal (not marked as an explicit array) with \<open>l \<le> h < width\<close>
  succeeds and yields a node of width \<open>h - l + 1\<close>.
\<close>

lemma slice_scalar_width:
  assumes "is_scalar (vars st p)" "\<not> explicit_array (vars st p)" "generator (vars st p) \<noteq> None"
    "l \<le> h" "h < width (vars st p)"
  shows "\<exists>st' i. slice_op st p h l = Inr (st', i) \<and> i = next_var st \<and>
           (p \<noteq> i \<longrightarrow> width (vars st' i) = h - l + 1 \<and> var_width (vars st' i) = h - l + 1)"
  using assms
  by (auto simp: slice_op_def VarSlice_ctor_def Var_ctor_empty_name Let_def alloc_var_def
      init_var_def width_def split: if_splits)

text \<open>
  The offsets of a slice of a scalar slice, as \<^verbatim>\<open>VarSlice::VarSlice\<close> computes them:
  the low offset is the outer low offset plus the local low bound, the high offset is
  the outer low offset plus the local high bound plus one.
\<close>

lemma reslice_scalar_offsets:
  assumes "type_v (vars st p) = Slice" "is_scalar (vars st p)"
    and "VarSlice_ctor st p h2 l2 = Inr v"
  shows "var_low v = var_low (vars st p) + l2 \<and> var_high v = var_low (vars st p) + h2 + 1"
  using assms
  by (auto simp: VarSlice_ctor_def Var_ctor_def Let_def split: if_splits)

text \<open>
  C3. The source at the input \<open>a[5:2][1:0]\<close> for the 8-bit scalar \<open>a\<close>. The outer slice
  has width 4 and absolute offsets 5 and 2; the inner slice has width 2 and absolute low
  offset 2, and the source gives it the absolute high offset 4, where the outer low
  offset plus the local high bound is 3.
\<close>

theorem reslice_at_failing_input:
  "(case slice_op ex_st 0 5 2 of
      Inr (st1, s1) \<Rightarrow>
        (case slice_op st1 s1 1 0 of
           Inr (st2, s2) \<Rightarrow>
             Some (width (vars st2 s1), var_low (vars st2 s1), var_high (vars st2 s1),
                   width (vars st2 s2), var_low (vars st2 s2), var_high (vars st2 s2))
         | Inl e \<Rightarrow> None)
    | Inl e \<Rightarrow> None) = Some (4, 2, 5, 2, 2, 4)"
  by (simp add: slice_op_def VarSlice_ctor_def Var_ctor_empty_name Let_def alloc_var_def
      init_var_def width_def is_scalar_def ex_st_def word_le_nat_alt word_less_nat_alt)

subsection \<open>Casts (C5)\<close>

text \<open>Casting an already signed signal to signed returns the signal itself; nothing is built.\<close>

lemma cast_signed_identity:
  "is_signed (vars st v) \<Longrightarrow> cast st v Signed = Inr (st, v)"
  by (simp add: cast_def)

text \<open>
  A clock or asynchronous-reset cast that is not memoized fails exactly when the
  dimension list of the signal is not the single dimension 1; the element width is not
  looked at.
\<close>

lemma cast_clock_checks_size:
  assumes "ct = Clock \<or> ct = AsyncReset" "map_of (casted (vars st v)) ct = None"
    "generator (vars st v) \<noteq> None" "size_v (vars st v) \<noteq> []"
  shows "(\<exists>e. cast st v ct = Inl e) \<longleftrightarrow> size_v (vars st v) \<noteq> [1]"
  using assms
  by (cases "size_v (vars st v)")
    (auto simp: cast_def VarCasted_ctor_def Var_ctor_empty_name Let_def alloc_var_def)

text \<open>
  C5. The source at the input \<^verbatim>\<open>a.cast(Clock)\<close> for the 8-bit scalar \<open>a\<close>: the cast
  succeeds and returns a new 8-bit cast node over \<open>a\<close>.
\<close>

theorem cast_clock_at_failing_input:
  "width (vars ex_st 0) = 8 \<and>
   (case cast ex_st 0 Clock of
      Inr (st1, c) \<Rightarrow> Some (c, cls (vars st1 c), cast_type (vars st1 c), parent_var (vars st1 c),
                              width (vars st1 c))
    | Inl e \<Rightarrow> None) = Some (7, ClsVarCasted, Some Clock, Some 0, 8)"
  by (simp add: cast_def VarCasted_ctor_def Var_ctor_empty_name Let_def alloc_var_def
      init_var_def width_def ex_st_def)

subsection \<open>Concatenation (C7)\<close>

lemma find_Some_unique:
  "i \<in> set xs \<Longrightarrow> P i \<Longrightarrow> (\<forall>x\<in>set xs. x \<noteq> i \<longrightarrow> \<not> P x) \<Longrightarrow> find P xs = Some i"
  by (induction xs) auto

lemma VarConcat_ctor_vars_c:
  assumes "VarConcat_ctor st a b = Inr n"
  shows "vars_c n = [a, b]"
proof -
  obtain v where v: "Expr_ctor2 st a b = Inr v"
    using assms by (cases "Expr_ctor2 st a b") (simp_all add: VarConcat_ctor_def)
  then have "n = v\<lparr> cls := ClsVarConcat, vars_c := [a, b],
                        var_width := width (vars st a) + width (vars st b),
                        expr_op := Concat \<rparr>"
    using assms by (simp add: VarConcat_ctor_def split: if_splits)
  then show ?thesis by simp
qed

lemma Var_concat_again:
  assumes alloc: "this < next_var st" and first: "Var_concat st this ptr = Inr (st1, c)"
  shows "Var_concat st1 this ptr = Inr (st1, c) \<and> cls (vars st1 this) = cls (vars st this)"
proof (cases "find (concat_hit st ptr) (concat_vars (vars st this))")
  case (Some c')
  then show ?thesis using first by (simp add: Var_concat_def)
next
  case None
  then obtain n where n: "VarConcat_ctor st this ptr = Inr n"
    using first by (cases "VarConcat_ctor st this ptr") (simp_all add: Var_concat_def)
  let ?i = "next_var st"
  let ?old = "concat_vars (vars st this)"
  have ne: "this \<noteq> ?i" using alloc by simp
  have st1: "st1 = st\<lparr>vars := (vars st)(?i := n, this := (vars st this)\<lparr>concat_vars :=
                 List.insert ?i ?old\<rparr>), next_var := Suc ?i\<rparr>" and c: "c = ?i"
    using first None n ne by (auto simp: Var_concat_def alloc_var_def)
  have cv: "concat_vars (vars st1 this) = List.insert ?i ?old" by (simp add: st1)
  have hit: "concat_hit st1 ptr ?i"
    using ne VarConcat_ctor_vars_c [OF n] by (simp add: concat_hit_def st1)
  have miss: "\<forall>x\<in>set (List.insert ?i ?old). x \<noteq> ?i \<longrightarrow> \<not> concat_hit st1 ptr x"
  proof (intro ballI impI)
    fix x assume x: "x \<in> set (List.insert ?i ?old)" "x \<noteq> ?i"
    then have "x \<in> set ?old" by simp
    then have "\<not> concat_hit st ptr x" using None by (simp add: find_None_iff)
    moreover have "vars_c (vars st1 x) = vars_c (vars st x)" using x(2) by (simp add: st1)
    ultimately show "\<not> concat_hit st1 ptr x" by (simp add: concat_hit_def)
  qed
  have "find (concat_hit st1 ptr) (concat_vars (vars st1 this)) = Some ?i"
    unfolding cv by (rule find_Some_unique [OF _ hit miss]) simp
  moreover have "cls (vars st1 this) = cls (vars st this)" by (simp add: st1)
  ultimately show ?thesis by (simp add: Var_concat_def c)
qed

text \<open>
  A concatenation that receives \<^verbatim>\<open>concat\<close> builds a new node each time: the node is
  the next unused one, and the receiver stays what it was.
\<close>

lemma VarConcat_concat_fresh:
  assumes "VarConcat_concat st this ptr = Inr (st1, c)"
  shows "c = next_var st \<and> next_var st1 = Suc (next_var st) \<and>
         (this < next_var st \<longrightarrow> cls (vars st1 this) = cls (vars st this))"
proof -
  obtain n where n: "VarConcat_ctor_concat st this ptr = Inr n"
    using assms by (cases "VarConcat_ctor_concat st this ptr") (simp_all add: VarConcat_concat_def)
  obtain f fs where f: "vars_c (vars st this) = f # fs"
    using assms n by (cases "vars_c (vars st this)") (simp_all add: VarConcat_concat_def alloc_var_def)
  have "st1 = add_concat_var (st\<lparr>vars := (vars st)(next_var st := n),
                                  next_var := Suc (next_var st)\<rparr>) f (next_var st)"
    and c: "c = next_var st"
    using assms n f by (auto simp: VarConcat_concat_def alloc_var_def)
  then show ?thesis by (auto simp: add_concat_var_def)
qed

lemma VarConcat_concat_succeeds:
  assumes "generator (vars st this) \<noteq> None" "generator (vars st ptr) \<noteq> None"
    "is_signed (vars st this) = is_signed (vars st ptr)" "vars_c (vars st this) \<noteq> []"
  shows "\<exists>st1. VarConcat_concat st this ptr = Inr (st1, next_var st)"
proof -
  have "\<exists>e. set_parent st
      ((init_var (generator (vars st this)) [] (var_width (vars st this)) (size_v (vars st this))
          (is_signed (vars st this)) Expression)
        \<lparr>cls := ClsExpr, expr_op := Add, left := Some this, right := Some ptr,
         type_v := Expression, size_v := size_v (vars st this)\<rparr>) = Inr e"
    by (rule set_parent_succeeds [where l = this and r = "Some ptr"]) (simp_all add: assms)
  then obtain v where "Expr_ctor2 st this ptr = Inr v"
    using assms(1) by (auto simp: Expr_ctor2_def Let_def Var_ctor_empty_name)
  then obtain n where "VarConcat_ctor_concat st this ptr = Inr n"
    using assms(3) by (simp add: VarConcat_ctor_concat_def)
  then show ?thesis using assms(4)
    by (cases "vars_c (vars st this)") (simp_all add: VarConcat_concat_def alloc_var_def)
qed

text \<open>
  C7, as the source has it. For an allocated signal that is not itself a concatenation,
  a concatenation that succeeded returns the same node, in an unchanged store, when it is
  asked for again; a memoized two-operand concatenation with the same trailing operand
  is returned without any check of the signedness; without such a memoized node,
  operands of differing signedness make the concatenation fail, and with both operands in
  one scope the failure is the signedness \<open>VarException\<close> naming both. For a receiver that
  is itself a concatenation nothing is memoized: with operands of one signedness in
  scopes, and a receiver that has operands, the call succeeds and returns the next unused
  node, so a second call returns another node; operands of differing signedness always
  make it fail.
\<close>

theorem concat_memoized_and_signedness:
  "(cls (vars st this) \<noteq> ClsVarConcat \<and> this < next_var st \<and>
    concat_v st this ptr = Inr (st1, c) \<longrightarrow>
      concat_v st1 this ptr = Inr (st1, c))
   \<and> (cls (vars st this) \<noteq> ClsVarConcat \<and>
      find (concat_hit st ptr) (concat_vars (vars st this)) = Some c' \<longrightarrow>
        concat_v st this ptr = Inr (st, c'))
   \<and> (cls (vars st this) \<noteq> ClsVarConcat \<and>
      find (concat_hit st ptr) (concat_vars (vars st this)) = None \<and>
      is_signed (vars st this) \<noteq> is_signed (vars st ptr) \<longrightarrow>
        (\<exists>e. concat_v st this ptr = Inl e) \<and>
        (generator (vars st this) \<noteq> None \<and> generator (vars st ptr) = generator (vars st this) \<longrightarrow>
           concat_v st this ptr =
             Inl (VarException ''{0} is signed but {1} is not''
                    [ToString this, ToString ptr] [this, ptr])))
   \<and> (cls (vars st this) = ClsVarConcat \<and> generator (vars st this) \<noteq> None \<and>
      generator (vars st ptr) \<noteq> None \<and> is_signed (vars st this) = is_signed (vars st ptr) \<and>
      vars_c (vars st this) \<noteq> [] \<longrightarrow>
        (\<exists>st2. concat_v st this ptr = Inr (st2, next_var st)))
   \<and> (cls (vars st this) = ClsVarConcat \<and> this < next_var st \<and>
      concat_v st this ptr = Inr (st1, c) \<longrightarrow>
        c = next_var st \<and>
        (\<forall>st2 c2. concat_v st1 this ptr = Inr (st2, c2) \<longrightarrow> c2 = Suc c))
   \<and> (cls (vars st this) = ClsVarConcat \<and>
      is_signed (vars st this) \<noteq> is_signed (vars st ptr) \<longrightarrow>
        (\<exists>e. concat_v st this ptr = Inl e))"
proof (intro conjI impI)
  assume a: "cls (vars st this) \<noteq> ClsVarConcat \<and> this < next_var st \<and>
    concat_v st this ptr = Inr (st1, c)"
  then have "Var_concat st this ptr = Inr (st1, c)" by (auto simp: concat_v_def)
  from Var_concat_again [OF _ this] a
  show "concat_v st1 this ptr = Inr (st1, c)" by (auto simp: concat_v_def)
next
  assume "cls (vars st this) \<noteq> ClsVarConcat \<and>
      find (concat_hit st ptr) (concat_vars (vars st this)) = Some c'"
  then show "concat_v st this ptr = Inr (st, c')" by (simp add: concat_v_def Var_concat_def)
next
  assume a: "cls (vars st this) \<noteq> ClsVarConcat \<and>
      find (concat_hit st ptr) (concat_vars (vars st this)) = None \<and>
      is_signed (vars st this) \<noteq> is_signed (vars st ptr)"
  then show "\<exists>e. concat_v st this ptr = Inl e"
    by (cases "Expr_ctor2 st this ptr") (auto simp: concat_v_def Var_concat_def VarConcat_ctor_def)
next
  assume a: "cls (vars st this) \<noteq> ClsVarConcat \<and>
      find (concat_hit st ptr) (concat_vars (vars st this)) = None \<and>
      is_signed (vars st this) \<noteq> is_signed (vars st ptr)"
    and g: "generator (vars st this) \<noteq> None \<and> generator (vars st ptr) = generator (vars st this)"
  have "\<exists>v. Expr_ctor2 st this ptr = Inr v"
    using g by (simp add: Expr_ctor2_def Let_def Var_ctor_empty_name set_parent_def)
  then show "concat_v st this ptr =
             Inl (VarException ''{0} is signed but {1} is not''
                    [ToString this, ToString ptr] [this, ptr])"
    using a by (auto simp: concat_v_def Var_concat_def VarConcat_ctor_def)
next
  assume "cls (vars st this) = ClsVarConcat \<and> generator (vars st this) \<noteq> None \<and>
      generator (vars st ptr) \<noteq> None \<and> is_signed (vars st this) = is_signed (vars st ptr) \<and>
      vars_c (vars st this) \<noteq> []"
  then show "\<exists>st2. concat_v st this ptr = Inr (st2, next_var st)"
    using VarConcat_concat_succeeds [of st this ptr] by (simp add: concat_v_def)
next
  assume a: "cls (vars st this) = ClsVarConcat \<and> this < next_var st \<and>
      concat_v st this ptr = Inr (st1, c)"
  then have f: "VarConcat_concat st this ptr = Inr (st1, c)" by (auto simp: concat_v_def)
  note f1 = VarConcat_concat_fresh [OF f]
  then show "c = next_var st" by simp
  have k: "cls (vars st1 this) = ClsVarConcat" using f1 a by simp
  show "\<forall>st2 c2. concat_v st1 this ptr = Inr (st2, c2) \<longrightarrow> c2 = Suc c"
  proof (intro allI impI)
    fix st2 c2 assume "concat_v st1 this ptr = Inr (st2, c2)"
    then have "VarConcat_concat st1 this ptr = Inr (st2, c2)" using k by (simp add: concat_v_def)
    from VarConcat_concat_fresh [OF this] show "c2 = Suc c" using f1 by simp
  qed
next
  assume "cls (vars st this) = ClsVarConcat \<and>
      is_signed (vars st this) \<noteq> is_signed (vars st ptr)"
  then show "\<exists>e. concat_v st this ptr = Inl e"
    by (cases "Expr_ctor2 st this ptr")
      (auto simp: concat_v_def VarConcat_concat_def VarConcat_ctor_concat_def)
qed

lemmas ev_concat = ex_st_def init_var_def Var_ctor_empty_name width_def
  set_parent_def gen_parent_of_def alloc_var_def is_scalar_def base_width_def
  Expr_ctor2_def VarConcat_ctor_def concat_hit_def concat_v_def Var_concat_def Let_def
  VarConcat_concat_def VarConcat_ctor_concat_def add_concat_var_def

lemma ex_joined_result: "concat_v ex_st 0 1 = Inr (ex_joined, 7)"
  by (simp add: ex_joined_def ev_concat)

lemma ex_joined_sel_result: "concat_v ex_joined 7 5 = Inr (ex_joined_sel, 8)"
  by (simp add: ex_joined_sel_def ex_joined_def ev_concat)

lemma ex_joined_facts:
  "cls (vars ex_joined 0) = ClsVar" "cls (vars ex_joined 7) = ClsVarConcat"
  "next_var ex_joined = 8" "vars_c (vars ex_joined 7) = [0, 1]"
  "generator (vars ex_joined 7) \<noteq> None" "generator (vars ex_joined 5) \<noteq> None"
  "\<not> is_signed (vars ex_joined 7)" "\<not> is_signed (vars ex_joined 5)"
  "is_signed (vars ex_joined 2)"
  by (simp_all add: ex_joined_def ev_concat)

lemma ex_joined_sel_facts:
  "cls (vars ex_joined_sel 7) = ClsVarConcat" "vars_c (vars ex_joined_sel 7) = [0, 1]"
  "generator (vars ex_joined_sel 7) \<noteq> None" "generator (vars ex_joined_sel 5) \<noteq> None"
  "\<not> is_signed (vars ex_joined_sel 7)" "\<not> is_signed (vars ex_joined_sel 5)"
  by (simp_all add: ex_joined_sel_def ex_joined_def ev_concat)

text \<open>
  C7 as stated fails, in two ways. In \<open>ex_memo\<close> the operands \<open>a\<close> (unsigned) and \<open>b\<close> (now
  signed) differ in signedness, and \<^verbatim>\<open>a.concat(b)\<close> returns the memoized node 7. In
  \<open>ex_joined\<close> node 7 is the concatenation of \<open>a\<close> and \<open>b\<close>; concatenating \<open>sel\<close> onto it
  gives node 8, and concatenating \<open>sel\<close> onto it once more gives node 9.
\<close>

theorem concat_signedness_counterexample:
  "is_signed (vars ex_memo 0) \<noteq> is_signed (vars ex_memo 1) \<and>
   concat_v ex_memo 0 1 = Inr (ex_memo, 7) \<and>
   concat_v ex_joined 7 5 = Inr (ex_joined_sel, 8) \<and>
   map_sum id snd (concat_v ex_joined_sel 7 5) = Inr 9"
proof -
  have "is_signed (vars ex_memo 0) \<noteq> is_signed (vars ex_memo 1)"
    "concat_v ex_memo 0 1 = Inr (ex_memo, 7)"
    by (simp_all add: ex_memo_def ex_joined_def ev_concat)
  moreover have "map_sum id snd (concat_v ex_joined_sel 7 5) = Inr 9"
    by (simp add: ex_joined_sel_def ex_joined_def ev_concat)
  ultimately show ?thesis using ex_joined_sel_result by simp
qed

text \<open>
  In the example design: \<^verbatim>\<open>a.concat(b)\<close> twice gives node 7 twice; in \<open>ex_memo\<close> the
  memoized node is returned; \<^verbatim>\<open>a.concat(c)\<close>, unsigned with signed, fails; the
  concatenation 7 gives the new node 8 when \<open>sel\<close> is concatenated onto it, a second
  such call gives node 9, and concatenating the signed \<open>c\<close> onto it fails.
\<close>

theorem concat_memoized_and_signedness_witness:
  "concat_v ex_st 0 1 = Inr (ex_joined, 7) \<and> concat_v ex_joined 0 1 = Inr (ex_joined, 7)
   \<and> concat_v ex_memo 0 1 = Inr (ex_memo, 7)
   \<and> concat_v ex_st 0 2 =
        Inl (VarException ''{0} is signed but {1} is not'' [ToString 0, ToString 2] [0, 2])
   \<and> (\<exists>st2. concat_v ex_joined 7 5 = Inr (st2, 8))
   \<and> (\<exists>st2. concat_v ex_joined_sel 7 5 = Inr (st2, 9))
   \<and> (\<exists>e. concat_v ex_joined 7 2 = Inl e)"
proof -
  note T = concat_memoized_and_signedness
  have a: "(0::nat) < next_var ex_st" "cls (vars ex_st 0) \<noteq> ClsVarConcat"
    "cls (vars ex_memo 0) \<noteq> ClsVarConcat"
    by (simp_all add: ex_st_def ex_memo_def ex_joined_def ev_concat)
  have b: "find (concat_hit ex_memo 1) (concat_vars (vars ex_memo 0)) = Some 7"
    by (simp add: ex_memo_def ex_joined_def ev_concat)
  have c: "find (concat_hit ex_st 2) (concat_vars (vars ex_st 0)) = None"
    "is_signed (vars ex_st 0) \<noteq> is_signed (vars ex_st 2)"
    "generator (vars ex_st 0) \<noteq> None" "generator (vars ex_st 2) = generator (vars ex_st 0)"
    by (simp_all add: ex_st_def init_var_def)
  have 1: "concat_v ex_joined 0 1 = Inr (ex_joined, 7)"
    using T [where st = ex_st and this = 0 and ptr = 1 and ?st1.0 = ex_joined and c = 7,
        THEN conjunct1] a ex_joined_result by simp
  have 2: "concat_v ex_memo 0 1 = Inr (ex_memo, 7)"
    using T [where st = ex_memo and this = 0 and ptr = 1 and c' = 7,
        THEN conjunct2, THEN conjunct1] a b by simp
  have 3: "concat_v ex_st 0 2 =
        Inl (VarException ''{0} is signed but {1} is not'' [ToString 0, ToString 2] [0, 2])"
    using T [where st = ex_st and this = 0 and ptr = 2,
        THEN conjunct2, THEN conjunct2, THEN conjunct1] a c by simp
  have 4: "\<exists>st2. concat_v ex_joined 7 5 = Inr (st2, 8)"
    using T [where st = ex_joined and this = 7 and ptr = 5,
        THEN conjunct2, THEN conjunct2, THEN conjunct2, THEN conjunct1]
    by (simp add: ex_joined_facts)
  have 5: "\<forall>st2 c2. concat_v ex_joined_sel 7 5 = Inr (st2, c2) \<longrightarrow> c2 = 9"
    using T [where st = ex_joined and this = 7 and ptr = 5 and ?st1.0 = ex_joined_sel and c = 8,
        THEN conjunct2, THEN conjunct2, THEN conjunct2, THEN conjunct2, THEN conjunct1]
      ex_joined_sel_result
    by (simp add: ex_joined_facts)
  have "\<exists>st2 c2. concat_v ex_joined_sel 7 5 = Inr (st2, c2)"
    using T [where st = ex_joined_sel and this = 7 and ptr = 5,
        THEN conjunct2, THEN conjunct2, THEN conjunct2, THEN conjunct1]
    by (auto simp: ex_joined_sel_facts)
  then have 7: "\<exists>st2. concat_v ex_joined_sel 7 5 = Inr (st2, 9)" using 5 by blast
  have 6: "\<exists>e. concat_v ex_joined 7 2 = Inl e"
    using T [where st = ex_joined and this = 7 and ptr = 2,
        THEN conjunct2, THEN conjunct2, THEN conjunct2, THEN conjunct2, THEN conjunct2]
    by (simp add: ex_joined_facts)
  show ?thesis using ex_joined_result 1 2 3 4 6 7 by simp
qed


subsection \<open>Variable-indexed slices (C9)\<close>

text \<open>\<open>clog2 n\<close> is the least \<open>k\<close> with \<open>n \<le> 2 ^ k\<close>, for every 32-bit \<open>n\<close>.\<close>

lemma clog2_least:
  assumes "n \<le> 2 ^ 32"
  shows "n \<le> 2 ^ clog2 n \<and> (\<forall>k < clog2 n. 2 ^ k < n)"
proof -
  let ?P = "\<lambda>k::nat. (2::nat) ^ k < n"
  let ?xs = "[0..<32]"
  have len: "clog2 n \<le> 32" unfolding clog2_def
    using length_takeWhile_le [of ?P ?xs] by simp
  have pre: "\<forall>k < clog2 n. ?P k"
  proof (intro allI impI)
    fix k assume k: "k < clog2 n"
    then have "takeWhile ?P ?xs ! k = ?xs ! k" unfolding clog2_def by (rule takeWhile_nth)
    moreover have "?P (takeWhile ?P ?xs ! k)"
      using k unfolding clog2_def by (metis nth_mem set_takeWhileD)
    moreover have "?xs ! k = k" using k len by simp
    ultimately show "?P k" by simp
  qed
  have "n \<le> 2 ^ clog2 n"
  proof (cases "clog2 n < 32")
    case True
    then have "\<not> ?P (?xs ! clog2 n)" unfolding clog2_def
      by (intro nth_length_takeWhile) simp
    then show ?thesis using True by simp
  next
    case False
    then have "clog2 n = 32" using len by simp
    then show ?thesis using assms by simp
  qed
  then show ?thesis using pre by blast
qed

lemma VarSlice_ctor_zero:
  assumes "generator (vars st p) \<noteq> None" "size_v (vars st p) \<noteq> []"
  shows "\<exists>v. VarSlice_ctor st p 0 0 = Inr v"
  using assms
  by (simp add: VarSlice_ctor_def Var_ctor_def is_valid_variable_name_def Let_def)

text \<open>
  C9, as the source has it. For a parent with an owning scope: over a scalar parent that
  is not marked as an explicit array the construction succeeds whatever the width of the
  index signal, and the result is a single bit (element width 1, dimension list \<open>[1]\<close>);
  over any other parent, with a non-zero outer dimension \<open>d\<close>, it succeeds when the index
  signal's width is \<open>max 1 (clog2 d)\<close>, the result being one element of the parent (the
  parent's element width, and its remaining dimensions, or \<open>[1]\<close> when there is none),
  and fails with the bit-extraction \<open>VarException\<close> otherwise. In both cases the result
  records the parent and the index signal. \<open>clog2 d\<close> is the ceiling of the binary
  logarithm: the least \<open>k\<close> with \<open>d \<le> 2 ^ k\<close>.
\<close>

theorem VarVarSlice_ctor_index_width:
  assumes "generator (vars st p) \<noteq> None"
  shows "(is_scalar (vars st p) \<and> \<not> explicit_array (vars st p) \<longrightarrow>
            (\<exists>v. VarVarSlice_ctor st p idx = Inr v \<and> width v = 1 \<and> var_width v = 1 \<and>
                 size_v v = [1] \<and> sliced_var v = Some idx \<and> parent_var v = Some p))
       \<and> (\<not> (is_scalar (vars st p) \<and> \<not> explicit_array (vars st p)) \<and>
            size_v (vars st p) = d # ds \<and> d \<noteq> 0 \<longrightarrow>
            (if width (vars st idx) = word_of_nat (max 1 (clog2 (unat d)))
             then \<exists>v. VarVarSlice_ctor st p idx = Inr v \<and> width v = base_width (vars st p) \<and>
                      var_width v = var_width (vars st p) \<and>
                      size_v v = (if ds = [] then [1] else ds) \<and>
                      sliced_var v = Some idx \<and> parent_var v = Some p
             else VarVarSlice_ctor st p idx =
                    Inl (VarException
                          ''Bit extraction of array[{0}:0] requires {1} bit index, not {2} bits.''
                          [U32 (d - 1), U32 (word_of_nat (max 1 (clog2 (unat d)))),
                           U32 (width (vars st idx))] [p, idx])))
       \<and> unat d \<le> 2 ^ clog2 (unat d) \<and> (\<forall>k<clog2 (unat d). 2 ^ k < unat d)"
proof (intro conjI impI)
  assume a: "is_scalar (vars st p) \<and> \<not> explicit_array (vars st p)"
  then have "size_v (vars st p) \<noteq> []" by (auto simp: is_scalar_def)
  from VarSlice_ctor_zero [OF assms this] obtain v0 where v0: "VarSlice_ctor st p 0 0 = Inr v0" ..
  have "parent_var v0 = Some p" using v0 by (rule VarSlice_ctor_parent)
  then show "\<exists>v. VarVarSlice_ctor st p idx = Inr v \<and> width v = 1 \<and> var_width v = 1 \<and>
                 size_v v = [1] \<and> sliced_var v = Some idx \<and> parent_var v = Some p"
    using a v0 by (simp add: VarVarSlice_ctor_def Let_def width_def)
next
  assume a: "\<not> (is_scalar (vars st p) \<and> \<not> explicit_array (vars st p)) \<and>
            size_v (vars st p) = d # ds \<and> d \<noteq> 0"
  then have "size_v (vars st p) \<noteq> []" by simp
  from VarSlice_ctor_zero [OF assms this] obtain v0 where v0: "VarSlice_ctor st p 0 0 = Inr v0" ..
  have pv: "parent_var v0 = Some p" using v0 by (rule VarSlice_ctor_parent)
  show "if width (vars st idx) = word_of_nat (max 1 (clog2 (unat d)))
             then \<exists>v. VarVarSlice_ctor st p idx = Inr v \<and> width v = base_width (vars st p) \<and>
                      var_width v = var_width (vars st p) \<and>
                      size_v v = (if ds = [] then [1] else ds) \<and>
                      sliced_var v = Some idx \<and> parent_var v = Some p
             else VarVarSlice_ctor st p idx =
                    Inl (VarException
                          ''Bit extraction of array[{0}:0] requires {1} bit index, not {2} bits.''
                          [U32 (d - 1), U32 (word_of_nat (max 1 (clog2 (unat d)))),
                           U32 (width (vars st idx))] [p, idx])"
    using a v0 pv by (auto simp: VarVarSlice_ctor_def Let_def width_def base_width_def)
next
  have "unat d < 2 ^ 32" using unsigned_less [of d] by simp
  then have le: "unat d \<le> 2 ^ 32" by simp
  show "unat d \<le> 2 ^ clog2 (unat d)" using clog2_least [OF le] by simp
  show "\<forall>k<clog2 (unat d). 2 ^ k < unat d" using clog2_least [OF le] by simp
qed

lemma clog2_values: "clog2 1 = 0" "clog2 (Suc 0) = 0" "clog2 4 = 2"
  by (simp_all add: clog2_def upt_rec)

text \<open>
  C9 as stated fails: \<open>a\<close> is a scalar, its outer dimension is 1 and the required index
  width would be \<open>max 1 (clog2 1) = 1\<close>; the index \<open>idx\<close> is 3 bits wide and the
  construction of \<^verbatim>\<open>a[idx]\<close> succeeds, with a node of width 1.
\<close>

theorem VarVarSlice_scalar_counterexample:
  "size_v (vars ex_st 0) = [1] \<and> max 1 (clog2 (unat (1 :: uint32))) = 1 \<and>
   width (vars ex_st 4) = 3 \<and>
   map_sum id width (VarVarSlice_ctor ex_st 0 4) = Inr 1"
  by (simp add: clog2_values ex_st_def init_var_def width_def VarVarSlice_ctor_def
      VarSlice_ctor_def Var_ctor_empty_name is_scalar_def Let_def)

text \<open>
  In the example design: \<^verbatim>\<open>a[idx]\<close> over the scalar \<open>a\<close> is built and is one bit wide;
  over the array \<open>mem\<close> of four elements \<^verbatim>\<open>mem[sel]\<close> (2-bit index) is built and is 8 bits
  wide, and \<^verbatim>\<open>mem[idx]\<close> (3-bit index) is rejected.
\<close>

theorem VarVarSlice_ctor_index_width_witness:
  "(\<exists>v. VarVarSlice_ctor ex_st 0 4 = Inr v \<and> width v = 1) \<and>
   (\<exists>v. VarVarSlice_ctor ex_st 3 5 = Inr v \<and> width v = 8) \<and>
   VarVarSlice_ctor ex_st 3 4 =
     Inl (VarException ''Bit extraction of array[{0}:0] requires {1} bit index, not {2} bits.''
            [U32 3, U32 2, U32 3] [3, 4])"
proof -
  have g: "generator (vars ex_st 0) \<noteq> None" "generator (vars ex_st 3) \<noteq> None"
    by (simp_all add: ex_st_def init_var_def)
  have f: "is_scalar (vars ex_st 0)" "\<not> explicit_array (vars ex_st 0)"
    "\<not> is_scalar (vars ex_st 3)" "size_v (vars ex_st 3) = [4]"
    "width (vars ex_st 5) = 2" "width (vars ex_st 4) = 3" "base_width (vars ex_st 3) = 8"
    by (simp_all add: ex_st_def init_var_def is_scalar_def width_def base_width_def)
  show ?thesis
    using VarVarSlice_ctor_index_width [OF g(1), of 4 0 "[]"]
      VarVarSlice_ctor_index_width [OF g(2), of 5 4 "[]"]
      VarVarSlice_ctor_index_width [OF g(2), of 4 4 "[]"] f
    by (auto simp add: clog2_values)
qed

subsection \<open>Notifications on views (C6)\<close>























subsection \<open>Assignment (C4)\<close>













subsection \<open>Relocation of sources and sinks (C1, C10)\<close>

text \<open>
  The rewriting functions change variables only; the notifications add one statement
  to link sets; a loop step changes no statement but the one it is given.
\<close>

lemma and_then_Inr: "and_then m f = Inr y \<longleftrightarrow> (\<exists>x. m = Inr x \<and> f x = Inr y)"
  by (cases m) (simp_all add: and_then_def)

lemma for_each_inv:
  assumes step: "\<And>s x s'. P s \<Longrightarrow> x \<in> set xs \<Longrightarrow> f s x = Inr s' \<Longrightarrow> P s'"
    and init: "P s" and run: "for_each f s xs = Inr s'"
  shows "P s'"
  using assms
proof (induction xs arbitrary: s)
  case Nil
  then show ?case by simp
next
  case (Cons x xs)
  from Cons.prems(3) obtain s1 where s1: "f s x = Inr s1" "for_each f s1 xs = Inr s'"
    by (cases "f s x") simp_all
  have p1: "P s1" by (rule Cons.prems(1) [OF Cons.prems(2) _ s1(1)]) simp
  show ?case
  proof (rule Cons.IH [OF _ p1 s1(2)])
    fix t y t' assume "P t" "y \<in> set xs" "f t y = Inr t'"
    then show "P t'" using Cons.prems(1) [of t y t'] by simp
  qed
qed

lemma stmt_part_simps [simp]:
  "stmt_part (st\<lparr>vars := x\<rparr>) = stmt_part st"
  "stmt_part (st\<lparr>next_var := n\<rparr>) = stmt_part st"
  "stmt_part (st\<lparr>gens := g\<rparr>) = stmt_part st"
  by (simp_all add: stmt_part_def)

lemma foldl_set_parent_var_stmt [simp]:
  "stmt_part (foldl (set_parent_var n) st xs) = stmt_part st"
  by (induction xs arbitrary: st) (simp_all add: set_parent_var_def)

lemma move_casted_stmt [simp]: "stmt_part (move_casted n st e) = stmt_part st"
  by (simp add: move_casted_def Let_def set_parent_var_def)

lemma foldl_move_casted_stmt [simp]:
  "stmt_part (foldl (move_casted n) st xs) = stmt_part st"
  by (induction xs arbitrary: st) simp_all

lemma replace_var_stmt [simp]: "stmt_part (replace_var st c t i) = stmt_part st"
  by (simp add: replace_var_def)

lemma move_pieces_stmt [simp]:
  "stmt_part (move_slices a b st) = stmt_part st"
  "stmt_part (take_concats a b st) = stmt_part st"
  "stmt_part (move_casts a b st) = stmt_part st"
  by (simp_all add: move_slices_def take_concats_def move_casts_def Let_def)

lemma move_linked_to_stmt:
  "move_linked_to n st a b = Inr st' \<Longrightarrow> stmt_part st' = stmt_part st"
proof (induction n arbitrary: st a st')
  case 0
  then show ?case by simp
next
  case (Suc n)
  let ?st3 = "move_slices a b st"
  let ?F = "\<lambda>s c. case move_linked_to n s c b of Inl e \<Rightarrow> Inl e
                   | Inr s1 \<Rightarrow> Inr (replace_var s1 c a b)"
  from Suc.prems obtain st4 where st4: "for_each ?F ?st3 (concat_vars (vars ?st3 a)) = Inr st4"
    and st': "st' = move_casts a b (take_concats a b st4)"
    by (cases "for_each ?F ?st3 (concat_vars (vars ?st3 a))") (simp_all split: if_splits)
  have "stmt_part st4 = stmt_part ?st3"
  proof (rule for_each_inv [where P = "\<lambda>s. stmt_part s = stmt_part ?st3", OF _ _ st4])
    fix s x s' assume p: "stmt_part s = stmt_part ?st3" and f: "?F s x = Inr s'"
    from f obtain s1 where "move_linked_to n s x b = Inr s1" "s' = replace_var s1 x a b"
      by (cases "move_linked_to n s x b") auto
    then show "stmt_part s' = stmt_part ?st3" using Suc.IH [of s x s1] p by simp
  qed simp
  then show ?case using st' by simp
qed


lemma slice_op_stmt: "slice_op st p h l = Inr (st', i) \<Longrightarrow> stmt_part st' = stmt_part st"
  by (cases "VarSlice_ctor st p h l")
    (auto simp: slice_op_def Let_def alloc_var_def split: if_splits)

lemma slice_by_var_stmt: "slice_by_var st p x = Inr (st', i) \<Longrightarrow> stmt_part st' = stmt_part st"
  by (cases "VarVarSlice_ctor st p x")
    (auto simp: slice_by_var_def Let_def alloc_var_def)

lemma slice_var_stmt: "slice_var sv sl = Inr sv' \<Longrightarrow> stmt_part (fst sv') = stmt_part (fst sv)"
  by (cases sv; cases sv')
    (auto simp: slice_var_def split: if_splits option.splits dest: slice_op_stmt slice_by_var_stmt)

lemma set_var_parent_stmt:
  assumes a: "set_var_parent n st v t b c = Inr (st', v')"
  shows "stmt_part st' = stmt_part st"
proof (cases "collect_slices n st v")
  case (Inl e)
  then show ?thesis using a by (simp add: set_var_parent_def)
next
  case (Inr r)
  obtain ss root where r: "r = (ss, root)" by (cases r)
  show ?thesis
  proof (cases "root \<noteq> t \<or> ss = []")
    case True
    then show ?thesis using a Inr r by (auto simp: set_var_parent_def split: if_splits)
  next
    case False
    then have fe: "for_each slice_var (st, b) (rev ss) = Inr (st', v')"
      using a Inr r by (simp add: set_var_parent_def)
    have "stmt_part (fst (st', v')) = stmt_part st"
    proof (rule for_each_inv [where P = "\<lambda>sv. stmt_part (fst sv) = stmt_part st", OF _ _ fe])
      fix s x s' assume "stmt_part (fst s) = stmt_part st" "slice_var s x = Inr s'"
      then show "stmt_part (fst s') = stmt_part st" using slice_var_stmt [of s x s'] by simp
    qed simp
    then show ?thesis by simp
  qed
qed

lemma set_lr_e_stmt [simp]:
  "stmt_part (set_left_e st e x) = stmt_part st" "stmt_part (set_right_e st e x) = stmt_part st"
  by (simp_all add: set_left_e_def set_right_e_def)

lemma and_then_stmt:
  assumes "and_then m f = Inr y"
    and "\<And>x. m = Inr x \<Longrightarrow> stmt_part x = c"
    and "\<And>x. stmt_part x = c \<Longrightarrow> f x = Inr y \<Longrightarrow> stmt_part y = c"
  shows "stmt_part y = c"
  using assms by (cases m) (auto simp: and_then_def)

lemma change_var_expr_stmt:
  "change_var_expr n st e t b = Inr st' \<Longrightarrow> stmt_part st' = stmt_part st"
proof (induction n arbitrary: st e st')
  case 0
  then show ?case by simp
next
  case (Suc n)
  have ih: "\<And>s x s'. change_var_expr n s x t b = Inr s' \<Longrightarrow> stmt_part s = stmt_part st \<Longrightarrow>
              stmt_part s' = stmt_part st"
    using Suc.IH by simp
  have ml: "\<And>s x s'. move_linked_to n s x b = Inr s' \<Longrightarrow> stmt_part s = stmt_part st \<Longrightarrow>
              stmt_part s' = stmt_part st"
    using move_linked_to_stmt by simp
  have sp: "\<And>s x s' v c. set_var_parent n s x t b c = Inr (s', v) \<Longrightarrow> stmt_part s = stmt_part st \<Longrightarrow>
              stmt_part s' = stmt_part st"
    using set_var_parent_stmt by simp
  from Suc.prems show ?case
    unfolding change_var_expr.simps
    apply (erule_tac and_then_stmt)
     apply (auto split: option.splits if_splits dest: ih)[1]
    apply (erule and_then_stmt)
     apply (auto split: option.splits if_splits dest: ih)[1]
    apply (erule and_then_stmt)
     apply (auto simp: Let_def split: option.splits if_splits dest!: ml)[1]
    apply (erule and_then_stmt)
     apply (auto simp: Let_def split: option.splits if_splits dest!: ml)[1]
    apply (erule and_then_stmt)
     apply (auto split: option.splits if_splits sum.splits dest!: sp)[1]
    apply (erule and_then_stmt)
     apply (auto split: option.splits if_splits sum.splits dest!: sp)[1]
    apply (auto split: if_splits)
    done
qed


lemma only_adds_refl [simp]: "only_adds s st st"
  by (auto simp: only_adds_def)

lemma only_adds_trans: "only_adds s st st1 \<Longrightarrow> only_adds s st1 st2 \<Longrightarrow> only_adds s st st2"
  unfolding only_adds_def by (simp, blast)

lemma only_adds_Var [simp]:
  "only_adds s st (Var_add_sink st v s)" "only_adds s st (Var_add_source st v s)"
  by (auto simp: only_adds_def Var_add_sink_def Var_add_source_def)

lemma only_adds_Const: "Const_add_sink st v s = Inr st' \<Longrightarrow> only_adds i st st'"
  by (auto simp: Const_add_sink_def only_adds_def split: option.splits if_splits)

lemma add_sink_only_adds: "add_sink n st v s = Inr st' \<Longrightarrow> only_adds s st st'"
proof (induction n arbitrary: st v st')
  case 0
  then show ?case by simp
next
  case (Suc n)
  have ih: "\<And>s0 x s1. add_sink n s0 x s = Inr s1 \<Longrightarrow> only_adds s st s0 \<Longrightarrow> only_adds s st s1"
    using Suc.IH only_adds_trans by blast
  show ?case
  proof (cases "cls (vars st v)")
    case ClsVarConcat
    then have fe: "for_each (\<lambda>st' x. add_sink n st' x s) st (vars_c (vars st v)) = Inr st'"
      using Suc.prems by simp
    show ?thesis
      by (rule for_each_inv [where P = "only_adds s st", OF _ _ fe]) (auto dest: ih)
  next
    case ClsExpr
    then show ?thesis using Suc.prems
      by (auto split: option.splits sum.splits dest!: ih)
  next
    case ClsConditionalExpr
    then show ?thesis using Suc.prems
      by (auto split: option.splits sum.splits dest!: ih)
  next
    case ClsVarVarSlice
    then show ?thesis using Suc.prems
      by (auto split: option.splits sum.splits dest!: ih)
  qed (use Suc.prems in \<open>auto split: option.splits sum.splits dest: only_adds_Const dest!: ih\<close>)
qed

lemma add_source_only_adds: "add_source n st v s = Inr st' \<Longrightarrow> only_adds s st st'"
proof (induction n arbitrary: st v st')
  case 0
  then show ?case by simp
next
  case (Suc n)
  have ih: "\<And>s0 x s1. add_source n s0 x s = Inr s1 \<Longrightarrow> only_adds s st s0 \<Longrightarrow> only_adds s st s1"
    using Suc.IH only_adds_trans by blast
  show ?case
  proof (cases "cls (vars st v)")
    case ClsVarConcat
    then have fe: "for_each (\<lambda>st' x. add_source n st' x s) st (vars_c (vars st v)) = Inr st'"
      using Suc.prems by simp
    show ?thesis
      by (rule for_each_inv [where P = "only_adds s st", OF _ _ fe]) (auto dest: ih)
  next
    case ClsVarVarSlice
    then show ?thesis using Suc.prems
      by (auto split: option.splits sum.splits dest!: ih)
  qed (use Suc.prems in \<open>auto split: option.splits sum.splits dest!: ih\<close>)
qed


lemma stmt_part_eqD:
  "stmt_part st' = stmt_part st \<Longrightarrow> stmts st' = stmts st \<and> next_stmt st' = next_stmt st"
  by (simp add: stmt_part_def)

lemma only_adds_stmt_part: "only_adds s st st' \<Longrightarrow> stmt_part st' = stmt_part st"
  by (simp add: only_adds_def)

lemma set_lr_s_frame [simp]:
  "next_stmt (set_left_s st s x) = next_stmt st" "next_stmt (set_right_s st s x) = next_stmt st"
  "y \<noteq> s \<Longrightarrow> stmts (set_left_s st s x) y = stmts st y"
  "y \<noteq> s \<Longrightarrow> stmts (set_right_s st s x) y = stmts st y"
  by (simp_all add: set_left_s_def set_right_s_def)

lemma add_debug_frame [simp]:
  "next_stmt (add_debug st g s ln) = next_stmt st"
  "y \<noteq> s \<Longrightarrow> stmts (add_debug st g s ln) y = stmts st y"
  by (simp_all add: add_debug_def)

lemma stmt_set_left_frame:
  assumes "stmt_set_left n st s t b = Inr st'"
  shows "next_stmt st' = next_stmt st \<and> (\<forall>y. y \<noteq> s \<longrightarrow> stmts st' y = stmts st y)"
proof -
  let ?l = "s_left (stmts st s)"
  let ?ty = "type_v (vars st ?l)"
  consider (plain) "?ty = Base \<or> ?ty = PortIO \<or> ?ty = ConstValue"
    | (slice) "?ty = Slice" | (expr) "?ty = Expression"
    | (other) "?ty \<noteq> Base" "?ty \<noteq> PortIO" "?ty \<noteq> ConstValue" "?ty \<noteq> Slice" "?ty \<noteq> Expression"
    by blast
  then show ?thesis
  proof cases
    case plain
    then have "move_linked_to n (set_left_s st s b) (s_left (stmts (set_left_s st s b) s)) b = Inr st'"
      using assms by (auto simp: stmt_set_left_def Let_def split: if_splits)
    from stmt_part_eqD [OF move_linked_to_stmt [OF this]] show ?thesis by simp
  next
    case slice
    then obtain st1 v where sv: "set_var_parent n st ?l t b True = Inr (st1, v)"
      and st': "st' = set_left_s st1 s v"
      using assms by (auto simp: stmt_set_left_def Let_def split: sum.splits)
    from stmt_part_eqD [OF set_var_parent_stmt [OF sv]] st' show ?thesis by simp
  next
    case expr
    then have "change_var_expr n st ?l t b = Inr st'"
      using assms by (auto simp: stmt_set_left_def Let_def)
    from stmt_part_eqD [OF change_var_expr_stmt [OF this]] show ?thesis by simp
  next
    case other
    then have "st' = st" using assms by (auto simp: stmt_set_left_def Let_def)
    then show ?thesis by simp
  qed
qed

lemma stmt_set_right_frame:
  assumes "stmt_set_right n st s t b = Inr st'"
  shows "next_stmt st' = next_stmt st \<and> (\<forall>y. y \<noteq> s \<longrightarrow> stmts st' y = stmts st y)"
proof -
  let ?l = "s_right (stmts st s)"
  let ?ty = "type_v (vars st ?l)"
  consider (plain) "?ty = Base \<or> ?ty = PortIO \<or> ?ty = ConstValue"
    | (slice) "?ty = Slice" | (expr) "?ty = Expression"
    | (other) "?ty \<noteq> Base" "?ty \<noteq> PortIO" "?ty \<noteq> ConstValue" "?ty \<noteq> Slice" "?ty \<noteq> Expression"
    by blast
  then show ?thesis
  proof cases
    case plain
    then have "move_linked_to n (set_right_s st s b) (s_right (stmts (set_right_s st s b) s)) b = Inr st'"
      using assms by (auto simp: stmt_set_right_def Let_def split: if_splits)
    from stmt_part_eqD [OF move_linked_to_stmt [OF this]] show ?thesis by simp
  next
    case slice
    then obtain st1 v where sv: "set_var_parent n st ?l t b True = Inr (st1, v)"
      and st': "st' = set_right_s st1 s v"
      using assms by (auto simp: stmt_set_right_def Let_def split: sum.splits)
    from stmt_part_eqD [OF set_var_parent_stmt [OF sv]] st' show ?thesis by simp
  next
    case expr
    then have "change_var_expr n st ?l t b = Inr st'"
      using assms by (auto simp: stmt_set_right_def Let_def)
    from stmt_part_eqD [OF change_var_expr_stmt [OF this]] show ?thesis by simp
  next
    case other
    then have "st' = st" using assms by (auto simp: stmt_set_right_def Let_def)
    then show ?thesis by simp
  qed
qed

lemma set_width_param_stmt:
  "set_width_param st v p = Inr st' \<Longrightarrow> stmts st' = stmts st \<and> next_stmt st' = next_stmt st"
  by (auto simp: set_width_param_def Let_def split: if_splits)

lemma move_src_step_frame:
  assumes "move_src_step n v b S st s = Inr st'"
  shows "next_stmt st' = next_stmt st \<and>
         (\<forall>y. y \<noteq> s \<or> generator_parent (stmts st s) \<noteq> Some S \<longrightarrow> stmts st' y = stmts st y)"
proof -
  from assms obtain g where g: "generator_parent (stmts st s) = Some g"
    and rest: "(if g \<noteq> S then Inr st
           else and_then (stmt_set_left n st s v b)
     (\<lambda>st1. and_then (add_source n (add_debug st1 S s 927) b s)
     (\<lambda>st2. case param (vars st2 (s_right (stmts st2 s))) of
               None \<Rightarrow> Inr st2
             | Some p \<Rightarrow> if param (vars st2 b) = None
                         then set_width_param st2 b p else Inr st2))) = Inr st'"
    by (auto simp: move_src_step_def stmt_generator_parent_def and_then_Inr split: option.splits)
  show ?thesis
  proof (cases "g = S")
    case False
    then show ?thesis using rest g by simp
  next
    case True
    then obtain st1 st2 where s1: "stmt_set_left n st s v b = Inr st1"
      and s2: "add_source n (add_debug st1 S s 927) b s = Inr st2"
      and s3: "(case param (vars st2 (s_right (stmts st2 s))) of
               None \<Rightarrow> Inr st2
             | Some p \<Rightarrow> if param (vars st2 b) = None
                         then set_width_param st2 b p else Inr st2) = Inr st'"
      using rest by (auto simp: and_then_Inr)
    have f1: "next_stmt st1 = next_stmt st" "\<And>y. y \<noteq> s \<Longrightarrow> stmts st1 y = stmts st y"
      using stmt_set_left_frame [OF s1] by simp_all
    have f2: "stmts st2 = stmts (add_debug st1 S s 927)" "next_stmt st2 = next_stmt st1"
      using stmt_part_eqD [OF only_adds_stmt_part [OF add_source_only_adds [OF s2]]] by simp_all
    have f3: "stmts st' = stmts st2" "next_stmt st' = next_stmt st2"
      using s3 by (auto split: option.splits if_splits dest: set_width_param_stmt)
    show ?thesis using f1 f2 f3 g True by auto
  qed
qed

lemma move_sink_step_frame:
  assumes "move_sink_step n v b S st s = Inr st'"
  shows "next_stmt st' = next_stmt st \<and>
         (\<forall>y. y \<noteq> s \<or> generator_parent (stmts st s) \<noteq> Some S \<longrightarrow> stmts st' y = stmts st y)"
proof -
  from assms obtain g where g: "generator_parent (stmts st s) = Some g"
    and rest: "(if g \<noteq> S then Inr st
           else and_then (stmt_set_right n st s v b)
     (\<lambda>st1. and_then (add_sink n (add_debug st1 S s 959) b s)
     (\<lambda>st2. case param (vars st2 (s_left (stmts st2 s))) of
               None \<Rightarrow> Inr st2
             | Some p \<Rightarrow> if param (vars st2 b) = None
                         then set_width_param st2 b p else Inr st2))) = Inr st'"
    by (auto simp: move_sink_step_def stmt_generator_parent_def and_then_Inr split: option.splits)
  show ?thesis
  proof (cases "g = S")
    case False
    then show ?thesis using rest g by simp
  next
    case True
    then obtain st1 st2 where s1: "stmt_set_right n st s v b = Inr st1"
      and s2: "add_sink n (add_debug st1 S s 959) b s = Inr st2"
      and s3: "(case param (vars st2 (s_left (stmts st2 s))) of
               None \<Rightarrow> Inr st2
             | Some p \<Rightarrow> if param (vars st2 b) = None
                         then set_width_param st2 b p else Inr st2) = Inr st'"
      using rest by (auto simp: and_then_Inr)
    have f1: "next_stmt st1 = next_stmt st" "\<And>y. y \<noteq> s \<Longrightarrow> stmts st1 y = stmts st y"
      using stmt_set_right_frame [OF s1] by simp_all
    have f2: "stmts st2 = stmts (add_debug st1 S s 959)" "next_stmt st2 = next_stmt st1"
      using stmt_part_eqD [OF only_adds_stmt_part [OF add_sink_only_adds [OF s2]]] by simp_all
    have f3: "stmts st' = stmts st2" "next_stmt st' = next_stmt st2"
      using s3 by (auto split: option.splits if_splits dest: set_width_param_stmt)
    show ?thesis using f1 f2 f3 g True by auto
  qed
qed

lemma untouched_step:
  assumes u: "untouched S st cur"
    and f: "next_stmt cur' = next_stmt cur \<and>
         (\<forall>y. y \<noteq> s \<or> generator_parent (stmts cur s) \<noteq> Some S \<longrightarrow> stmts cur' y = stmts cur y)"
  shows "untouched S st cur'"
  unfolding untouched_def
proof (intro conjI allI impI)
  show "next_stmt cur' = next_stmt st" using u f by (simp add: untouched_def)
next
  fix y assume y: "generator_parent (stmts st y) \<noteq> Some S"
  then have c: "stmts cur y = stmts st y" using u by (simp add: untouched_def)
  have "y \<noteq> s \<or> generator_parent (stmts cur s) \<noteq> Some S" using c y by auto
  then show "stmts cur' y = stmts st y" using f c by simp
qed

lemma move_src_loop_untouched:
  assumes "for_each (move_src_step n v b S) st xs = Inr st1"
  shows "untouched S st st1"
proof (rule for_each_inv [where P = "untouched S st", OF _ _ assms])
  show "untouched S st st" by (simp add: untouched_def)
next
  fix s x s' assume "untouched S st s" "move_src_step n v b S s x = Inr s'"
  then show "untouched S st s'" using untouched_step move_src_step_frame by blast
qed

lemma move_sink_loop_untouched:
  assumes "for_each (move_sink_step n v b S) st xs = Inr st1"
  shows "untouched S st st1"
proof (rule for_each_inv [where P = "untouched S st", OF _ _ assms])
  show "untouched S st st" by (simp add: untouched_def)
next
  fix s x s' assume "untouched S st s" "move_sink_step n v b S s x = Inr s'"
  then show "untouched S st s'" using untouched_step move_sink_step_frame by blast
qed


lemma AssignStmt_ctor_effect:
  assumes "AssignStmt_ctor n st l r ty = Inr (st', s)"
  shows "s = next_stmt st \<and> next_stmt st' = Suc s \<and>
         (\<forall>y. y \<noteq> s \<longrightarrow> stmts st' y = stmts st y) \<and>
         (\<forall>x. set (sources (vars st' x)) \<subseteq> insert s (set (sources (vars st x))) \<and>
              set (sinks (vars st' x)) \<subseteq> insert s (set (sinks (vars st x))))"
proof -
  let ?i = "next_stmt st"
  let ?st1 = "st\<lparr>stmts := (stmts st)(?i := \<lparr>s_left = l, s_right = r, assign_type = ty,
                                               generator_parent = None, fn_name_ln = []\<rparr>),
                    next_stmt := Suc ?i\<rparr>"
  from assms obtain st2 where a: "add_sink n ?st1 r ?i = Inr st2"
    and b: "add_source n st2 l ?i = Inr st'" and s: "s = ?i"
    by (auto simp: AssignStmt_ctor_def Let_def split: sum.splits)
  have "only_adds ?i ?st1 st'"
    using only_adds_trans [OF add_sink_only_adds [OF a] add_source_only_adds [OF b]] .
  then show ?thesis using s by (auto simp: only_adds_def stmt_part_def)
qed

lemma assign_effect:
  assumes "assign n st t v ty = Inr (st', s)"
  shows "s = next_stmt st \<and> next_stmt st' = Suc s \<and>
         (\<forall>y. y \<noteq> s \<longrightarrow> stmts st' y = stmts st y) \<and>
         (\<forall>x. set (sources (vars st' x)) \<subseteq> insert s (set (sources (vars st x))) \<and>
              set (sinks (vars st' x)) \<subseteq> insert s (set (sinks (vars st x))))"
proof -
  have "AssignStmt_ctor n st t v ty = Inr (st', s)"
    using assms
    by (cases "cls (vars st t)")
      (auto simp: assign_def Var_assign_def EnumVar_assign_def split: if_splits)
  then show ?thesis by (rule AssignStmt_ctor_effect)
qed

lemma Generator_add_stmt_frame [simp]:
  "vars (Generator_add_stmt st g s) = vars st"
  "y \<noteq> s \<Longrightarrow> stmts (Generator_add_stmt st g s) y = stmts st y"
  "vars (add_debug st g s ln) = vars st"
  by (simp_all add: Generator_add_stmt_def add_debug_def)

lemma move_src_to_clears:
  assumes "move_src_to n st A B S keep = Inr st'"
  shows "set (sources (vars st' A)) \<subseteq> {next_stmt st} \<and>
         (\<not> keep \<longrightarrow> sources (vars st' A) = []) \<and>
         (\<forall>s\<in>set (sources (vars st A)).
            s < next_stmt st \<and> generator_parent (stmts st s) \<noteq> Some S \<longrightarrow>
            stmts st' s = stmts st s \<and> s \<notin> set (sources (vars st' A)))"
proof -
  from assms obtain st1 where loop: "for_each (move_src_step n A B S) st (sources (vars st A)) = Inr st1"
    and rest: "(let st2 = st1\<lparr>vars := (vars st1)(A := (vars st1 A)\<lparr>sources := []\<rparr>)\<rparr> in
             if keep
             then and_then (assign n st2 A B Undefined)
                    (\<lambda>(st3, s). Inr (Generator_add_stmt (add_debug st3 S s 942) S s))
             else Inr st2) = Inr st'"
    by (auto simp: move_src_to_def and_then_Inr split: if_splits)
  let ?st2 = "st1\<lparr>vars := (vars st1)(A := (vars st1 A)\<lparr>sources := []\<rparr>)\<rparr>"
  have u: "next_stmt st1 = next_stmt st"
    "\<And>y. generator_parent (stmts st y) \<noteq> Some S \<Longrightarrow> stmts st1 y = stmts st y"
    using move_src_loop_untouched [OF loop] by (simp_all add: untouched_def)
  show ?thesis
  proof (cases keep)
    case False
    then have "st' = ?st2" using rest by (simp add: Let_def)
    then show ?thesis using u False by simp
  next
    case True
    then obtain st3 s where as: "assign n ?st2 A B Undefined = Inr (st3, s)"
      and st': "st' = Generator_add_stmt (add_debug st3 S s 942) S s"
      using rest by (auto simp: Let_def and_then_Inr)
    note ae = assign_effect [OF as]
    have e1: "s = next_stmt st" using ae u(1) by simp
    have e2: "\<And>y. y \<noteq> s \<Longrightarrow> stmts st3 y = stmts st1 y" using ae by simp
    have "set (sources (vars st3 A)) \<subseteq> insert s (set (sources (vars ?st2 A)))"
      using ae by blast
    then have e3: "set (sources (vars st3 A)) \<subseteq> {s}" by simp
    note e = e1 e2 e3
    have 1: "set (sources (vars st' A)) \<subseteq> {next_stmt st}" using e st' by simp
    have 3: "\<forall>s0\<in>set (sources (vars st A)).
            s0 < next_stmt st \<and> generator_parent (stmts st s0) \<noteq> Some S \<longrightarrow>
            stmts st' s0 = stmts st s0 \<and> s0 \<notin> set (sources (vars st' A))"
    proof (intro ballI impI)
      fix s0 assume "s0 \<in> set (sources (vars st A))"
        and h: "s0 < next_stmt st \<and> generator_parent (stmts st s0) \<noteq> Some S"
      then have ne: "s0 \<noteq> s" using e(1) by simp
      have "stmts st' s0 = stmts st3 s0" using ne st' by simp
      also have "\<dots> = stmts st1 s0" using e(2) ne by simp
      also have "\<dots> = stmts st s0" using u(2) h by simp
      finally show "stmts st' s0 = stmts st s0 \<and> s0 \<notin> set (sources (vars st' A))"
        using 1 ne e(1) by auto
    qed
    show ?thesis using 1 3 True by simp
  qed
qed

lemma move_sink_to_clears:
  assumes "move_sink_to n st A B S keep = Inr st'"
  shows "set (sinks (vars st' A)) \<subseteq> {next_stmt st} \<and>
         (\<not> keep \<longrightarrow> sinks (vars st' A) = []) \<and>
         (\<forall>s\<in>set (sinks (vars st A)).
            s < next_stmt st \<and> generator_parent (stmts st s) \<noteq> Some S \<longrightarrow>
            stmts st' s = stmts st s \<and> s \<notin> set (sinks (vars st' A)))"
proof -
  from assms obtain st1 where loop: "for_each (move_sink_step n A B S) st (sinks (vars st A)) = Inr st1"
    and rest: "(let st2 = st1\<lparr>vars := (vars st1)(A := (vars st1 A)\<lparr>sinks := []\<rparr>)\<rparr> in
             if keep
             then and_then (assign n st2 B A Undefined)
                    (\<lambda>(st3, s). Inr (Generator_add_stmt (add_debug st3 S s 974) S s))
             else Inr st2) = Inr st'"
    by (auto simp: move_sink_to_def and_then_Inr split: if_splits)
  let ?st2 = "st1\<lparr>vars := (vars st1)(A := (vars st1 A)\<lparr>sinks := []\<rparr>)\<rparr>"
  have u: "next_stmt st1 = next_stmt st"
    "\<And>y. generator_parent (stmts st y) \<noteq> Some S \<Longrightarrow> stmts st1 y = stmts st y"
    using move_sink_loop_untouched [OF loop] by (simp_all add: untouched_def)
  show ?thesis
  proof (cases keep)
    case False
    then have "st' = ?st2" using rest by (simp add: Let_def)
    then show ?thesis using u False by simp
  next
    case True
    then obtain st3 s where as: "assign n ?st2 B A Undefined = Inr (st3, s)"
      and st': "st' = Generator_add_stmt (add_debug st3 S s 974) S s"
      using rest by (auto simp: Let_def and_then_Inr)
    note ae = assign_effect [OF as]
    have e1: "s = next_stmt st" using ae u(1) by simp
    have e2: "\<And>y. y \<noteq> s \<Longrightarrow> stmts st3 y = stmts st1 y" using ae by simp
    have "set (sinks (vars st3 A)) \<subseteq> insert s (set (sinks (vars ?st2 A)))"
      using ae by blast
    then have e3: "set (sinks (vars st3 A)) \<subseteq> {s}" by simp
    note e = e1 e2 e3
    have 1: "set (sinks (vars st' A)) \<subseteq> {next_stmt st}" using e st' by simp
    have 3: "\<forall>s0\<in>set (sinks (vars st A)).
            s0 < next_stmt st \<and> generator_parent (stmts st s0) \<noteq> Some S \<longrightarrow>
            stmts st' s0 = stmts st s0 \<and> s0 \<notin> set (sinks (vars st' A))"
    proof (intro ballI impI)
      fix s0 assume "s0 \<in> set (sinks (vars st A))"
        and h: "s0 < next_stmt st \<and> generator_parent (stmts st s0) \<noteq> Some S"
      then have ne: "s0 \<noteq> s" using e(1) by simp
      have "stmts st' s0 = stmts st3 s0" using ne st' by simp
      also have "\<dots> = stmts st1 s0" using e(2) ne by simp
      also have "\<dots> = stmts st s0" using u(2) h by simp
      finally show "stmts st' s0 = stmts st s0 \<and> s0 \<notin> set (sinks (vars st' A))"
        using 1 ne e(1) by auto
    qed
    show ?thesis using 1 3 True by simp
  qed
qed

lemma shape_eq_refl [simp]: "shape_eq s s"
  by (simp add: shape_eq_def)

lemma shape_eq_trans: "shape_eq a b \<Longrightarrow> shape_eq b c \<Longrightarrow> shape_eq a c"
  by (simp add: shape_eq_def)

lemma relocating_shape:
  assumes "relocating B st s" "shape_eq s s'"
  shows "relocating B st s'"
  using assms unfolding relocating_def nodes_kept_def own_views_def shape_eq_def by simp

lemma relocating_start: "own_views B st \<Longrightarrow> relocating B st st"
  by (simp add: relocating_def nodes_kept_def)

lemma shape_eq_simple [simp]:
  "shape_eq s (set_left_e s e x)" "shape_eq s (set_right_e s e x)"
  "shape_eq s (replace_var s c t i)" "shape_eq s (set_left_s s k z)"
  "shape_eq s (set_right_s s k z)" "shape_eq s (add_debug s g k ln)"
  "shape_eq s (Generator_add_stmt s g k)" "shape_eq s (Var_add_sink s z k)"
  "shape_eq s (Var_add_source s z k)"
  by (simp_all add: shape_eq_def set_left_e_def set_right_e_def replace_var_def set_left_s_def
      set_right_s_def add_debug_def Generator_add_stmt_def Var_add_sink_def Var_add_source_def)

lemma Const_add_sink_shape: "Const_add_sink s v k = Inr s' \<Longrightarrow> shape_eq s s'"
  by (auto simp: Const_add_sink_def shape_eq_def split: option.splits)

lemma add_sink_shape: "add_sink n st v s = Inr st' \<Longrightarrow> shape_eq st st'"
proof (induction n arbitrary: st v st')
  case 0
  then show ?case by simp
next
  case (Suc n)
  have ih: "\<And>s0 x s1. add_sink n s0 x s = Inr s1 \<Longrightarrow> shape_eq st s0 \<Longrightarrow> shape_eq st s1"
    using Suc.IH shape_eq_trans by blast
  show ?case
  proof (cases "cls (vars st v)")
    case ClsVarConcat
    then have fe: "for_each (\<lambda>st' x. add_sink n st' x s) st (vars_c (vars st v)) = Inr st'"
      using Suc.prems by simp
    show ?thesis
      by (rule for_each_inv [where P = "shape_eq st", OF _ _ fe]) (auto dest: ih)
  next
    case ClsExpr
    then show ?thesis using Suc.prems
      by (auto split: option.splits sum.splits dest!: ih)
  next
    case ClsConditionalExpr
    then show ?thesis using Suc.prems
      by (auto split: option.splits sum.splits dest!: ih)
  next
    case ClsVarVarSlice
    then show ?thesis using Suc.prems
      by (auto split: option.splits sum.splits dest!: ih)
  qed (use Suc.prems in \<open>auto split: option.splits sum.splits dest: Const_add_sink_shape dest!: ih\<close>)
qed

lemma add_source_shape: "add_source n st v s = Inr st' \<Longrightarrow> shape_eq st st'"
proof (induction n arbitrary: st v st')
  case 0
  then show ?case by simp
next
  case (Suc n)
  have ih: "\<And>s0 x s1. add_source n s0 x s = Inr s1 \<Longrightarrow> shape_eq st s0 \<Longrightarrow> shape_eq st s1"
    using Suc.IH shape_eq_trans by blast
  show ?case
  proof (cases "cls (vars st v)")
    case ClsVarConcat
    then have fe: "for_each (\<lambda>st' x. add_source n st' x s) st (vars_c (vars st v)) = Inr st'"
      using Suc.prems by simp
    show ?thesis
      by (rule for_each_inv [where P = "shape_eq st", OF _ _ fe]) (auto dest: ih)
  next
    case ClsVarVarSlice
    then show ?thesis using Suc.prems
      by (auto split: option.splits sum.splits dest!: ih)
  qed (use Suc.prems in \<open>auto split: option.splits sum.splits dest!: ih\<close>)
qed

lemma set_width_param_shape: "set_width_param s v p = Inr s' \<Longrightarrow> shape_eq s s'"
  by (auto simp: set_width_param_def Let_def shape_eq_def split: if_splits)

lemma foldl_unchanged: "(\<And>x. x \<in> set xs \<Longrightarrow> f s x = s) \<Longrightarrow> foldl f s xs = s"
  by (induction xs) simp_all

lemma set_parent_var_own:
  assumes "parent_var (vars s y) = Some B"
  shows "set_parent_var B s y = s"
proof -
  have "(vars s y)\<lparr>parent_var := Some B\<rparr> = vars s y"
    using assms by (cases "vars s y") simp
  then show ?thesis by (simp add: set_parent_var_def)
qed

lemma move_casted_own:
  assumes "e \<in> set (casted (vars s B))" "parent_var (vars s (snd e)) = Some B"
  shows "move_casted B s e = s"
proof -
  have "map_of (casted (vars s B)) (fst e) \<noteq> None"
    using assms(1) by (metis map_of_eq_None_iff image_eqI)
  then obtain z where "map_of (casted (vars s B)) (fst e) = Some z" by blast
  then show ?thesis
    unfolding move_casted_def Let_def set_parent_var_own [OF assms(2)] by simp
qed

text \<open>
  \<^verbatim>\<open>new_var->move_linked_to(new_var)\<close>, the call the rewriting functions make: the tables
  of \<open>new_var\<close> are emptied, nothing else changes.
\<close>

lemma move_linked_to_self:
  assumes ov: "own_views B s" and run: "move_linked_to n s B B = Inr s'"
  shows "s' = s\<lparr>vars := (vars s)(B := (vars s B)\<lparr>slices := [], concat_vars := [], casted := []\<rparr>)\<rparr>"
proof -
  obtain k where k: "n = Suc k" using run by (cases n) simp_all
  have f1: "foldl (set_parent_var B) s (slices (vars s B)) = s"
    by (rule foldl_unchanged) (use ov in \<open>simp add: own_views_def set_parent_var_own\<close>)
  have m1: "move_slices B B s = s\<lparr>vars := (vars s)(B := (vars s B)\<lparr>slices := []\<rparr>)\<rparr>"
    by (simp add: move_slices_def Let_def f1)
  let ?s1 = "s\<lparr>vars := (vars s)(B := (vars s B)\<lparr>slices := []\<rparr>)\<rparr>"
  have c1: "concat_vars (vars s B) = []" using ov by (simp add: own_views_def)
  have m2: "take_concats B B ?s1 = s\<lparr>vars := (vars s)(B := (vars s B)\<lparr>slices := [], concat_vars := []\<rparr>)\<rparr>"
    by (simp add: take_concats_def Let_def)
  let ?s2 = "s\<lparr>vars := (vars s)(B := (vars s B)\<lparr>slices := [], concat_vars := []\<rparr>)\<rparr>"
  have f2: "foldl (move_casted B) ?s2 (casted (vars ?s2 B)) = ?s2"
  proof (rule foldl_unchanged)
    fix e assume e: "e \<in> set (casted (vars ?s2 B))"
    then have "e \<in> set (casted (vars s B))" by simp
    then have "parent_var (vars s (snd e)) = Some B" using ov by (simp add: own_views_def)
    then have "parent_var (vars ?s2 (snd e)) = Some B" by auto
    then show "move_casted B ?s2 e = ?s2" using e by (rule move_casted_own [rotated])
  qed
  have m3: "move_casts B B ?s2 =
      s\<lparr>vars := (vars s)(B := (vars s B)\<lparr>slices := [], concat_vars := [], casted := []\<rparr>)\<rparr>"
    unfolding move_casts_def Let_def f2 by simp
  show ?thesis using run unfolding k by (simp add: m1 c1 m2 m3)
qed

lemma move_linked_to_self_relocating:
  assumes "relocating B st s" "move_linked_to n s B B = Inr s'"
  shows "relocating B st s'"
proof -
  have ov: "own_views B s" using assms(1) by (simp add: relocating_def)
  note e = move_linked_to_self [OF ov assms(2)]
  show ?thesis
    using assms(1) unfolding e relocating_def nodes_kept_def own_views_def by simp
qed

text \<open>Entering a new slice of \<open>cur\<close> in the store.\<close>

lemma new_slice_relocating:
  assumes r: "relocating B st s" and p: "parent_var n = Some cur"
  shows "relocating B st
     (s\<lparr>vars := ((vars s)(next_var s := n))
               (cur := (((vars s)(next_var s := n)) cur)\<lparr>slices :=
                   List.insert (next_var s) (slices (((vars s)(next_var s := n)) cur))\<rparr>),
         next_var := Suc (next_var s)\<rparr>)"
  (is "relocating B st ?s'")
proof -
  let ?i = "next_var s"
  have nk: "nodes_kept st s" and ov: "own_views B s" using r by (simp_all add: relocating_def)
  have le: "next_var st \<le> ?i" using nk by (simp add: nodes_kept_def)
  have B: "B < ?i" using ov by (simp add: own_views_def)
  have old: "\<And>y. y \<noteq> ?i \<Longrightarrow> cls (vars ?s' y) = cls (vars s y) \<and>
      type_v (vars ?s' y) = type_v (vars s y) \<and> parent_var (vars ?s' y) = parent_var (vars s y) \<and>
      concat_vars (vars ?s' y) = concat_vars (vars s y) \<and> casted (vars ?s' y) = casted (vars s y)"
    by simp
  have new: "cur = B \<Longrightarrow> parent_var (vars ?s' ?i) = Some B" using p B by simp
  have sl: "slices (vars ?s' B) = (if cur = B then List.insert ?i (slices (vars s B))
                                   else slices (vars s B))"
    using B by simp
  have 1: "nodes_kept st ?s'"
    unfolding nodes_kept_def
  proof (intro conjI allI impI)
    show "next_var st \<le> next_var ?s'" using le by simp
  next
    fix y assume "y < next_var st"
    then have "y \<noteq> ?i" using le by simp
    from old [OF this] nk \<open>y < next_var st\<close>
    show "cls (vars ?s' y) = cls (vars st y)" "type_v (vars ?s' y) = type_v (vars st y)"
      "parent_var (vars ?s' y) = parent_var (vars st y)"
      by (simp_all add: nodes_kept_def)
  qed
  have 2: "own_views B ?s'"
    unfolding own_views_def
  proof (intro conjI ballI)
    show "B < next_var ?s'" using B by simp
    show "concat_vars (vars ?s' B) = []" using old [of B] B ov by (simp add: own_views_def)
  next
    fix y assume y: "y \<in> set (slices (vars ?s' B))"
    show "y < next_var ?s'"
      using y ov unfolding sl by (auto simp: own_views_def less_Suc_eq split: if_splits)
    show "parent_var (vars ?s' y) = Some B"
    proof (cases "y = ?i")
      case True
      then have "cur = B" using y ov unfolding sl by (auto simp: own_views_def split: if_splits)
      then show ?thesis using new True by simp
    next
      case False
      then have "y \<in> set (slices (vars s B))" using y unfolding sl by (auto split: if_splits)
      then show ?thesis using old [OF False] ov by (simp add: own_views_def)
    qed
  next
    fix e assume e: "e \<in> set (casted (vars ?s' B))"
    then have e0: "e \<in> set (casted (vars s B))" using old [of B] B by simp
    then have l: "snd e < ?i" and pe: "parent_var (vars s (snd e)) = Some B"
      using ov by (simp_all add: own_views_def)
    show "snd e < next_var ?s'" using l by simp
    show "parent_var (vars ?s' (snd e)) = Some B" using old [of "snd e"] l pe by simp
  qed
  show ?thesis using 1 2 by (simp add: relocating_def)
qed

lemma slice_op_relocating:
  assumes r: "relocating B st s" and run: "slice_op s cur h l = Inr (s', i)"
  shows "relocating B st s'"
proof -
  obtain n where n: "VarSlice_ctor s cur h l = Inr n"
    using run by (cases "VarSlice_ctor s cur h l") (auto simp: slice_op_def Let_def split: if_splits)
  have "s' = s\<lparr>vars := ((vars s)(next_var s := n))
               (cur := (((vars s)(next_var s := n)) cur)\<lparr>slices :=
                   List.insert (next_var s) (slices (((vars s)(next_var s := n)) cur))\<rparr>),
         next_var := Suc (next_var s)\<rparr>"
    using run n by (auto simp: slice_op_def Let_def alloc_var_def split: if_splits)
  then show ?thesis using new_slice_relocating [OF r VarSlice_ctor_parent [OF n]] by simp
qed

lemma slice_by_var_relocating:
  assumes r: "relocating B st s" and run: "slice_by_var s cur x = Inr (s', i)"
  shows "relocating B st s'"
proof -
  obtain n where n: "VarVarSlice_ctor s cur x = Inr n"
    using run by (cases "VarVarSlice_ctor s cur x") (auto simp: slice_by_var_def)
  have "s' = s\<lparr>vars := ((vars s)(next_var s := n))
               (cur := (((vars s)(next_var s := n)) cur)\<lparr>slices :=
                   List.insert (next_var s) (slices (((vars s)(next_var s := n)) cur))\<rparr>),
         next_var := Suc (next_var s)\<rparr>"
    using run n by (auto simp: slice_by_var_def Let_def alloc_var_def)
  then show ?thesis using new_slice_relocating [OF r VarVarSlice_ctor_parent [OF n]] by simp
qed

lemma slice_var_relocating:
  "relocating B st (fst sv) \<Longrightarrow> slice_var sv sl = Inr sv' \<Longrightarrow> relocating B st (fst sv')"
  by (cases sv; cases sv')
    (auto simp: slice_var_def split: if_splits option.splits
      dest: slice_op_relocating slice_by_var_relocating)

lemma set_var_parent_relocating:
  assumes r: "relocating B st s" and a: "set_var_parent n s v t B c = Inr (s', v')"
  shows "relocating B st s'"
proof (cases "collect_slices n s v")
  case (Inl e)
  then show ?thesis using a by (simp add: set_var_parent_def)
next
  case (Inr x)
  obtain ss root where x: "x = (ss, root)" by (cases x)
  show ?thesis
  proof (cases "root \<noteq> t \<or> ss = []")
    case True
    then show ?thesis using a Inr x r by (auto simp: set_var_parent_def split: if_splits)
  next
    case False
    then have fe: "for_each slice_var (s, B) (rev ss) = Inr (s', v')"
      using a Inr x by (simp add: set_var_parent_def)
    have "relocating B st (fst (s', v'))"
    proof (rule for_each_inv [where P = "\<lambda>sv. relocating B st (fst sv)", OF _ _ fe])
      fix a y b assume "relocating B st (fst a)" "slice_var a y = Inr b"
      then show "relocating B st (fst b)" by (rule slice_var_relocating)
    qed (simp add: r)
    then show ?thesis by simp
  qed
qed

lemma set_lr_e_read [simp]:
  "left (vars (set_left_e s e x) e) = x" "right (vars (set_right_e s e x) e) = x"
  by (simp_all add: set_left_e_def set_right_e_def)

lemma and_then_relocating:
  assumes "and_then m f = Inr y"
    and "\<And>x. m = Inr x \<Longrightarrow> relocating B st x"
    and "\<And>x. relocating B st x \<Longrightarrow> f x = Inr y \<Longrightarrow> relocating B st y"
  shows "relocating B st y"
  using assms by (cases m) (auto simp: and_then_def)

lemma change_var_expr_relocating:
  "relocating B st s \<Longrightarrow> change_var_expr n s e t B = Inr s' \<Longrightarrow> relocating B st s'"
proof (induction n arbitrary: s e s')
  case 0
  then show ?case by simp
next
  case (Suc n)
  have ih: "\<And>a x b. change_var_expr n a x t B = Inr b \<Longrightarrow> relocating B st a \<Longrightarrow>
              relocating B st b"
    using Suc.IH by simp
  have ml: "\<And>a b x. move_linked_to n (set_left_e a x (Some B)) B B = Inr b \<Longrightarrow>
              relocating B st a \<Longrightarrow> relocating B st b"
    "\<And>a b x. move_linked_to n (set_right_e a x (Some B)) B B = Inr b \<Longrightarrow>
              relocating B st a \<Longrightarrow> relocating B st b"
    using move_linked_to_self_relocating relocating_shape shape_eq_simple(1,2) by blast+
  have sp: "\<And>a x b v c y. set_var_parent n a x t B c = Inr (b, v) \<Longrightarrow> relocating B st a \<Longrightarrow>
              relocating B st (set_left_e b y (Some v)) \<and> relocating B st (set_right_e b y (Some v))"
    using set_var_parent_relocating relocating_shape shape_eq_simple(1,2) by blast
  have rv: "\<And>a c. relocating B st a \<Longrightarrow> relocating B st (replace_var a c t B)"
    using relocating_shape shape_eq_simple(3) by blast
  note r0 = Suc.prems(1)
  from Suc.prems(2) show ?case
    unfolding change_var_expr.simps
    apply (erule_tac and_then_relocating)
     apply (use r0 in \<open>auto split: option.splits if_splits dest: ih\<close>)[1]
    apply (erule and_then_relocating)
     apply (auto split: option.splits if_splits dest: ih)[1]
    apply (erule and_then_relocating)
     apply (auto simp: Let_def split: option.splits if_splits dest: ml)[1]
    apply (erule and_then_relocating)
     apply (auto simp: Let_def split: option.splits if_splits dest: ml)[1]
    apply (erule and_then_relocating)
     apply (auto split: option.splits if_splits sum.splits dest: sp)[1]
    apply (erule and_then_relocating)
     apply (auto split: option.splits if_splits sum.splits dest: sp)[1]
    apply (auto split: if_splits dest: rv)
    done
qed

lemma set_lr_s_read [simp]:
  "s_left (stmts (set_left_s s k x) k) = x" "s_right (stmts (set_right_s s k x) k) = x"
  "vars (set_left_s s k x) = vars s" "vars (set_right_s s k x) = vars s"
  by (simp_all add: set_left_s_def set_right_s_def)

lemma stmt_set_left_relocating:
  assumes r: "relocating B st s" and run: "stmt_set_left n s k t B = Inr s'"
  shows "relocating B st s'"
proof -
  let ?l = "s_left (stmts s k)"
  let ?ty = "type_v (vars s ?l)"
  consider (plain) "?ty = Base \<or> ?ty = PortIO \<or> ?ty = ConstValue"
    | (slice) "?ty = Slice" | (expr) "?ty = Expression"
    | (other) "?ty \<noteq> Base" "?ty \<noteq> PortIO" "?ty \<noteq> ConstValue" "?ty \<noteq> Slice" "?ty \<noteq> Expression"
    by blast
  then show ?thesis
  proof cases
    case plain
    then have "move_linked_to n (set_left_s s k B) B B = Inr s'"
      using run by (auto simp: stmt_set_left_def Let_def split: if_splits)
    then show ?thesis
      using move_linked_to_self_relocating [OF relocating_shape [OF r shape_eq_simple(4)]] by blast
  next
    case slice
    then obtain s1 v where sv: "set_var_parent n s ?l t B True = Inr (s1, v)"
      and s': "s' = set_left_s s1 k v"
      using run by (auto simp: stmt_set_left_def Let_def split: sum.splits)
    show ?thesis
      unfolding s' using relocating_shape [OF set_var_parent_relocating [OF r sv] shape_eq_simple(4)] .
  next
    case expr
    then have "change_var_expr n s ?l t B = Inr s'"
      using run by (auto simp: stmt_set_left_def Let_def)
    then show ?thesis using change_var_expr_relocating [OF r] by blast
  next
    case other
    then have "s' = s" using run by (auto simp: stmt_set_left_def Let_def)
    then show ?thesis using r by simp
  qed
qed

lemma stmt_set_right_relocating:
  assumes r: "relocating B st s" and run: "stmt_set_right n s k t B = Inr s'"
  shows "relocating B st s'"
proof -
  let ?l = "s_right (stmts s k)"
  let ?ty = "type_v (vars s ?l)"
  consider (plain) "?ty = Base \<or> ?ty = PortIO \<or> ?ty = ConstValue"
    | (slice) "?ty = Slice" | (expr) "?ty = Expression"
    | (other) "?ty \<noteq> Base" "?ty \<noteq> PortIO" "?ty \<noteq> ConstValue" "?ty \<noteq> Slice" "?ty \<noteq> Expression"
    by blast
  then show ?thesis
  proof cases
    case plain
    then have "move_linked_to n (set_right_s s k B) B B = Inr s'"
      using run by (auto simp: stmt_set_right_def Let_def split: if_splits)
    then show ?thesis
      using move_linked_to_self_relocating [OF relocating_shape [OF r shape_eq_simple(5)]] by blast
  next
    case slice
    then obtain s1 v where sv: "set_var_parent n s ?l t B True = Inr (s1, v)"
      and s': "s' = set_right_s s1 k v"
      using run by (auto simp: stmt_set_right_def Let_def split: sum.splits)
    show ?thesis
      unfolding s' using relocating_shape [OF set_var_parent_relocating [OF r sv] shape_eq_simple(5)] .
  next
    case expr
    then have "change_var_expr n s ?l t B = Inr s'"
      using run by (auto simp: stmt_set_right_def Let_def)
    then show ?thesis using change_var_expr_relocating [OF r] by blast
  next
    case other
    then have "s' = s" using run by (auto simp: stmt_set_right_def Let_def)
    then show ?thesis using r by simp
  qed
qed

lemma param_pick_shape:
  "(case param (vars s2 x) of None \<Rightarrow> Inr s2
    | Some p \<Rightarrow> if param (vars s2 b) = None then set_width_param s2 b p else Inr s2) = Inr s'
   \<Longrightarrow> shape_eq s2 s'"
  by (auto split: option.splits if_splits dest: set_width_param_shape)

lemma move_src_step_relocating:
  assumes r: "relocating B st s" and run: "move_src_step n v B S s k = Inr s'"
  shows "relocating B st s'"
proof -
  from run obtain g where g: "generator_parent (stmts s k) = Some g"
    and rest: "(if g \<noteq> S then Inr s
           else and_then (stmt_set_left n s k v B)
     (\<lambda>st1. and_then (add_source n (add_debug st1 S k 927) B k)
     (\<lambda>st2. case param (vars st2 (s_right (stmts st2 k))) of
               None \<Rightarrow> Inr st2
             | Some p \<Rightarrow> if param (vars st2 B) = None
                         then set_width_param st2 B p else Inr st2))) = Inr s'"
    by (auto simp: move_src_step_def stmt_generator_parent_def and_then_Inr split: option.splits)
  show ?thesis
  proof (cases "g = S")
    case False
    then show ?thesis using rest r by simp
  next
    case True
    then obtain s1 s2 where s1: "stmt_set_left n s k v B = Inr s1"
      and s2: "add_source n (add_debug s1 S k 927) B k = Inr s2"
      and s3: "(case param (vars s2 (s_right (stmts s2 k))) of
               None \<Rightarrow> Inr s2
             | Some p \<Rightarrow> if param (vars s2 B) = None
                         then set_width_param s2 B p else Inr s2) = Inr s'"
      using rest by (auto simp: and_then_Inr)
    have "shape_eq s1 s'"
      using shape_eq_trans [OF shape_eq_trans [OF shape_eq_simple(6) add_source_shape [OF s2]]
          param_pick_shape [OF s3]] .
    then show ?thesis using relocating_shape [OF stmt_set_left_relocating [OF r s1]] by blast
  qed
qed

lemma move_sink_step_relocating:
  assumes r: "relocating B st s" and run: "move_sink_step n v B S s k = Inr s'"
  shows "relocating B st s'"
proof -
  from run obtain g where g: "generator_parent (stmts s k) = Some g"
    and rest: "(if g \<noteq> S then Inr s
           else and_then (stmt_set_right n s k v B)
     (\<lambda>st1. and_then (add_sink n (add_debug st1 S k 959) B k)
     (\<lambda>st2. case param (vars st2 (s_left (stmts st2 k))) of
               None \<Rightarrow> Inr st2
             | Some p \<Rightarrow> if param (vars st2 B) = None
                         then set_width_param st2 B p else Inr st2))) = Inr s'"
    by (auto simp: move_sink_step_def stmt_generator_parent_def and_then_Inr split: option.splits)
  show ?thesis
  proof (cases "g = S")
    case False
    then show ?thesis using rest r by simp
  next
    case True
    then obtain s1 s2 where s1: "stmt_set_right n s k v B = Inr s1"
      and s2: "add_sink n (add_debug s1 S k 959) B k = Inr s2"
      and s3: "(case param (vars s2 (s_left (stmts s2 k))) of
               None \<Rightarrow> Inr s2
             | Some p \<Rightarrow> if param (vars s2 B) = None
                         then set_width_param s2 B p else Inr s2) = Inr s'"
      using rest by (auto simp: and_then_Inr)
    have "shape_eq s1 s'"
      using shape_eq_trans [OF shape_eq_trans [OF shape_eq_simple(6) add_sink_shape [OF s2]]
          param_pick_shape [OF s3]] .
    then show ?thesis using relocating_shape [OF stmt_set_right_relocating [OF r s1]] by blast
  qed
qed

lemma AssignStmt_ctor_shape:
  assumes "AssignStmt_ctor n s l r ty = Inr (s', k)"
  shows "shape_eq s s'"
proof -
  let ?i = "next_stmt s"
  let ?s1 = "s\<lparr>stmts := (stmts s)(?i := \<lparr>s_left = l, s_right = r, assign_type = ty,
                                               generator_parent = None, fn_name_ln = []\<rparr>),
                    next_stmt := Suc ?i\<rparr>"
  from assms obtain s2 where a: "add_sink n ?s1 r ?i = Inr s2"
    and b: "add_source n s2 l ?i = Inr s'"
    by (auto simp: AssignStmt_ctor_def Let_def split: sum.splits)
  have "shape_eq s ?s1" by (simp add: shape_eq_def)
  then show ?thesis
    using shape_eq_trans [OF _ shape_eq_trans [OF add_sink_shape [OF a] add_source_shape [OF b]]]
    by blast
qed

lemma assign_shape:
  assumes "assign n s t v ty = Inr (s', k)"
  shows "shape_eq s s'"
proof -
  have "AssignStmt_ctor n s t v ty = Inr (s', k)"
    using assms
    by (cases "cls (vars s t)")
      (auto simp: assign_def Var_assign_def EnumVar_assign_def split: if_splits)
  then show ?thesis by (rule AssignStmt_ctor_shape)
qed

lemma move_src_to_nodes_kept:
  assumes run: "move_src_to n st A B S keep = Inr st'" and ov: "own_views B st"
  shows "nodes_kept st st'"
proof -
  from run obtain st1 where loop: "for_each (move_src_step n A B S) st (sources (vars st A)) = Inr st1"
    and rest: "(let st2 = st1\<lparr>vars := (vars st1)(A := (vars st1 A)\<lparr>sources := []\<rparr>)\<rparr> in
             if keep
             then and_then (assign n st2 A B Undefined)
                    (\<lambda>(st3, s). Inr (Generator_add_stmt (add_debug st3 S s 942) S s))
             else Inr st2) = Inr st'"
    by (auto simp: move_src_to_def and_then_Inr split: if_splits)
  let ?st2 = "st1\<lparr>vars := (vars st1)(A := (vars st1 A)\<lparr>sources := []\<rparr>)\<rparr>"
  have r1: "relocating B st st1"
  proof (rule for_each_inv [where P = "relocating B st", OF _ relocating_start [OF ov] loop])
    fix s x s' assume "relocating B st s" "move_src_step n A B S s x = Inr s'"
    then show "relocating B st s'" by (rule move_src_step_relocating)
  qed
  have e2: "shape_eq st1 ?st2" by (simp add: shape_eq_def)
  have "shape_eq st1 st'"
  proof (cases keep)
    case False
    then show ?thesis using rest e2 by (simp add: Let_def)
  next
    case True
    then obtain st3 s where as: "assign n ?st2 A B Undefined = Inr (st3, s)"
      and st': "st' = Generator_add_stmt (add_debug st3 S s 942) S s"
      using rest by (auto simp: Let_def and_then_Inr)
    show ?thesis
      unfolding st'
      using shape_eq_trans [OF shape_eq_trans [OF e2 assign_shape [OF as]]
          shape_eq_trans [OF shape_eq_simple(6) shape_eq_simple(7)]] .
  qed
  then show ?thesis using relocating_shape [OF r1] by (simp add: relocating_def)
qed

lemma move_sink_to_nodes_kept:
  assumes run: "move_sink_to n st A B S keep = Inr st'" and ov: "own_views B st"
  shows "nodes_kept st st'"
proof -
  from run obtain st1 where loop: "for_each (move_sink_step n A B S) st (sinks (vars st A)) = Inr st1"
    and rest: "(let st2 = st1\<lparr>vars := (vars st1)(A := (vars st1 A)\<lparr>sinks := []\<rparr>)\<rparr> in
             if keep
             then and_then (assign n st2 B A Undefined)
                    (\<lambda>(st3, s). Inr (Generator_add_stmt (add_debug st3 S s 974) S s))
             else Inr st2) = Inr st'"
    by (auto simp: move_sink_to_def and_then_Inr split: if_splits)
  let ?st2 = "st1\<lparr>vars := (vars st1)(A := (vars st1 A)\<lparr>sinks := []\<rparr>)\<rparr>"
  have r1: "relocating B st st1"
  proof (rule for_each_inv [where P = "relocating B st", OF _ relocating_start [OF ov] loop])
    fix s x s' assume "relocating B st s" "move_sink_step n A B S s x = Inr s'"
    then show "relocating B st s'" by (rule move_sink_step_relocating)
  qed
  have e2: "shape_eq st1 ?st2" by (simp add: shape_eq_def)
  have "shape_eq st1 st'"
  proof (cases keep)
    case False
    then show ?thesis using rest e2 by (simp add: Let_def)
  next
    case True
    then obtain st3 s where as: "assign n ?st2 B A Undefined = Inr (st3, s)"
      and st': "st' = Generator_add_stmt (add_debug st3 S s 974) S s"
      using rest by (auto simp: Let_def and_then_Inr)
    show ?thesis
      unfolding st'
      using shape_eq_trans [OF shape_eq_trans [OF e2 assign_shape [OF as]]
          shape_eq_trans [OF shape_eq_simple(6) shape_eq_simple(7)]] .
  qed
  then show ?thesis using relocating_shape [OF r1] by (simp add: relocating_def)
qed

lemma view_of_kept:
  assumes "view_of st w r" and "w < next_var st" and "parents_allocated st" and "nodes_kept st s"
  shows "view_of s w r"
  using assms(1,2)
proof (induction rule: view_of.induct)
  case (self r)
  show ?case by (rule view_of.self)
next
  case (up w p r)
  have "p < next_var st" using assms(3) up(2,5) by (auto simp: parents_allocated_def)
  then have "view_of s p r" by (rule up.IH)
  moreover have "cls (vars s w) = cls (vars st w)" "parent_var (vars s w) = parent_var (vars st w)"
    using assms(4) up(5) by (simp_all add: nodes_kept_def)
  ultimately show ?case using up(1,2) view_of.up [of s w p r] by simp
qed

text \<open>
  C10, as the source has it. After a successful \<^verbatim>\<open>Var::move_src_to\<close> on \<open>A\<close> no statement
  that existed before the call is left in the source set of \<open>A\<close>: the set is empty when
  \<^verbatim>\<open>keep_connection\<close> is false, and holds at most the statement created by the call when
  it is true. Every earlier registration of a statement owned by another scope is gone
  from the set although the statement itself is what it was, with the operand nodes it
  had. When the replacement \<open>B\<close> is a member of no concatenation and its tables hold its
  own slices and casts, no node that existed before the call has another class, type or
  parent after it, so that such a statement, if its written operand was \<open>A\<close> or a slice,
  extension or cast over \<open>A\<close>, still has an operand that is \<open>A\<close> or such a view of \<open>A\<close>.
  The same holds of \<^verbatim>\<open>Var::move_sink_to\<close>, the sink set and the read operand.
\<close>

theorem relocation_clears_registrations:
  "(move_src_to n st A B S keep = Inr st' \<longrightarrow>
      set (sources (vars st' A)) \<subseteq> {next_stmt st} \<and>
      (\<not> keep \<longrightarrow> sources (vars st' A) = []) \<and>
      (\<forall>s\<in>set (sources (vars st A)).
         s < next_stmt st \<and> generator_parent (stmts st s) \<noteq> Some S \<longrightarrow>
         stmts st' s = stmts st s \<and> s \<notin> set (sources (vars st' A)) \<and>
         (own_views B st \<and> parents_allocated st \<and> s_left (stmts st s) < next_var st \<and>
          view_of st (s_left (stmts st s)) A \<longrightarrow> view_of st' (s_left (stmts st' s)) A)))
   \<and> (move_sink_to n st A B S keep = Inr st' \<longrightarrow>
      set (sinks (vars st' A)) \<subseteq> {next_stmt st} \<and>
      (\<not> keep \<longrightarrow> sinks (vars st' A) = []) \<and>
      (\<forall>s\<in>set (sinks (vars st A)).
         s < next_stmt st \<and> generator_parent (stmts st s) \<noteq> Some S \<longrightarrow>
         stmts st' s = stmts st s \<and> s \<notin> set (sinks (vars st' A)) \<and>
         (own_views B st \<and> parents_allocated st \<and> s_right (stmts st s) < next_var st \<and>
          view_of st (s_right (stmts st s)) A \<longrightarrow> view_of st' (s_right (stmts st' s)) A)))"
proof (rule conjI)
  show "move_src_to n st A B S keep = Inr st' \<longrightarrow>
      set (sources (vars st' A)) \<subseteq> {next_stmt st} \<and>
      (\<not> keep \<longrightarrow> sources (vars st' A) = []) \<and>
      (\<forall>s\<in>set (sources (vars st A)).
         s < next_stmt st \<and> generator_parent (stmts st s) \<noteq> Some S \<longrightarrow>
         stmts st' s = stmts st s \<and> s \<notin> set (sources (vars st' A)) \<and>
         (own_views B st \<and> parents_allocated st \<and> s_left (stmts st s) < next_var st \<and>
          view_of st (s_left (stmts st s)) A \<longrightarrow> view_of st' (s_left (stmts st' s)) A))"
  proof
    assume run: "move_src_to n st A B S keep = Inr st'"
    note c = move_src_to_clears [OF run]
    have v: "\<And>s. stmts st' s = stmts st s \<Longrightarrow>
        own_views B st \<and> parents_allocated st \<and> s_left (stmts st s) < next_var st \<and>
          view_of st (s_left (stmts st s)) A \<longrightarrow> view_of st' (s_left (stmts st' s)) A"
      using view_of_kept [OF _ _ _ move_src_to_nodes_kept [OF run]] by simp
    show "set (sources (vars st' A)) \<subseteq> {next_stmt st} \<and>
      (\<not> keep \<longrightarrow> sources (vars st' A) = []) \<and>
      (\<forall>s\<in>set (sources (vars st A)).
         s < next_stmt st \<and> generator_parent (stmts st s) \<noteq> Some S \<longrightarrow>
         stmts st' s = stmts st s \<and> s \<notin> set (sources (vars st' A)) \<and>
         (own_views B st \<and> parents_allocated st \<and> s_left (stmts st s) < next_var st \<and>
          view_of st (s_left (stmts st s)) A \<longrightarrow> view_of st' (s_left (stmts st' s)) A))"
      using c v by blast
  qed
next
  show "move_sink_to n st A B S keep = Inr st' \<longrightarrow>
      set (sinks (vars st' A)) \<subseteq> {next_stmt st} \<and>
      (\<not> keep \<longrightarrow> sinks (vars st' A) = []) \<and>
      (\<forall>s\<in>set (sinks (vars st A)).
         s < next_stmt st \<and> generator_parent (stmts st s) \<noteq> Some S \<longrightarrow>
         stmts st' s = stmts st s \<and> s \<notin> set (sinks (vars st' A)) \<and>
         (own_views B st \<and> parents_allocated st \<and> s_right (stmts st s) < next_var st \<and>
          view_of st (s_right (stmts st s)) A \<longrightarrow> view_of st' (s_right (stmts st' s)) A))"
  proof
    assume run: "move_sink_to n st A B S keep = Inr st'"
    note c = move_sink_to_clears [OF run]
    have v: "\<And>s. stmts st' s = stmts st s \<Longrightarrow>
        own_views B st \<and> parents_allocated st \<and> s_right (stmts st s) < next_var st \<and>
          view_of st (s_right (stmts st s)) A \<longrightarrow> view_of st' (s_right (stmts st' s)) A"
      using view_of_kept [OF _ _ _ move_sink_to_nodes_kept [OF run]] by simp
    show "set (sinks (vars st' A)) \<subseteq> {next_stmt st} \<and>
      (\<not> keep \<longrightarrow> sinks (vars st' A) = []) \<and>
      (\<forall>s\<in>set (sinks (vars st A)).
         s < next_stmt st \<and> generator_parent (stmts st s) \<noteq> Some S \<longrightarrow>
         stmts st' s = stmts st s \<and> s \<notin> set (sinks (vars st' A)) \<and>
         (own_views B st \<and> parents_allocated st \<and> s_right (stmts st s) < next_var st \<and>
          view_of st (s_right (stmts st s)) A \<longrightarrow> view_of st' (s_right (stmts st' s)) A))"
      using c v by blast
  qed
qed

lemma Inr_projection: "\<not> isl X \<Longrightarrow> X = Inr (case X of Inr a \<Rightarrow> a | Inl e \<Rightarrow> d)"
  by (cases X) auto

lemma ex_moved_result: "move_src_to 4 ex_wired 0 2 0 False = Inr ex_moved"
  unfolding ex_moved_def by (rule Inr_projection) code_simp

lemma ex_kept_result: "move_src_to 4 ex_wired 0 9 0 True = Inr ex_kept"
  unfolding ex_kept_def by (rule Inr_projection) code_simp

lemma ex_sunk_result: "move_sink_to 4 ex_wired 7 9 0 False = Inr ex_sunk"
  unfolding ex_sunk_def by (rule Inr_projection) code_simp

lemma ex_wired_facts:
  "sources (vars ex_wired 0) = [0, 1]" "next_stmt ex_wired = 2"
  "generator_parent (stmts ex_wired 1) = Some 1" "generator_parent (stmts ex_wired (Suc 0)) = Some 1"
  "generator_parent (stmts ex_wired 0) = Some 0"
  "s_left (stmts ex_wired 1) = 0" "s_left (stmts ex_wired (Suc 0)) = 0" "sinks (vars ex_wired 7) = [0]"
  by (simp_all add: ex_wired_def ex_st_def init_var_def no_stmt_def top_gen_def)

lemma ex_sliced_moved_result: "move_src_to 4 ex_sliced 0 9 0 False = Inr ex_sliced_moved"
  unfolding ex_sliced_moved_def by (rule Inr_projection) code_simp

lemma ex_shared_moved_result: "move_sink_to 4 ex_shared 0 9 0 False = Inr ex_shared_moved"
  unfolding ex_shared_moved_def by (rule Inr_projection) code_simp

lemmas ev_sliced = ex_sliced_def ex_wired_def ex_st_def init_var_def no_stmt_def top_gen_def

lemma ex_sliced_facts:
  "sources (vars ex_sliced 0) = [0, 1]" "next_stmt ex_sliced = 2" "next_var ex_sliced = 11"
  "generator_parent (stmts ex_sliced 1) = Some 1" "generator_parent (stmts ex_sliced (Suc 0)) = Some 1"
  "s_left (stmts ex_sliced 1) = 10" "s_left (stmts ex_sliced (Suc 0)) = 10"
  "cls (vars ex_sliced 10) = ClsVarSlice" "parent_var (vars ex_sliced 10) = Some 0"
  by (simp_all add: ev_sliced)

lemma ex_sliced_wf: "own_views 9 ex_sliced" "parents_allocated ex_sliced"
  by (auto simp: own_views_def parents_allocated_def ev_sliced split: if_splits)

text \<open>
  C10 as stated fails, in two ways. When \<^verbatim>\<open>keep_connection\<close> is true the set is not
  empty: after \<^verbatim>\<open>Var::move_src_to(a, z, scope 0, true)\<close> the source set of \<open>a\<close> holds the
  new statement 2, \<open>a := z\<close>. And a skipped statement need not reference \<open>A\<close> any more:
  in \<open>ex_shared\<close> statement 1 of scope 1 reads the expression node 10, \<open>a + x\<close>, which
  statement 0 of scope 0 reads too; \<^verbatim>\<open>Var::move_sink_to(a, z, scope 0, false)\<close> rewrites
  the node in place for statement 0, so that statement 1, skipped and unchanged, now
  reads \<open>z + x\<close>, and it is in the sink set of neither \<open>a\<close> nor \<open>z\<close>.
\<close>

theorem move_src_to_keep_connection_counterexample:
  "move_src_to 4 ex_wired 0 9 0 True = Inr ex_kept \<and> sources (vars ex_kept 0) = [2] \<and>
   s_left (stmts ex_kept 2) = 0 \<and> s_right (stmts ex_kept 2) = 9 \<and>
   sinks (vars ex_shared 0) = [0, 1] \<and> generator_parent (stmts ex_shared 1) = Some 1 \<and>
   s_right (stmts ex_shared 1) = 10 \<and> left (vars ex_shared 10) = Some 0 \<and>
   right (vars ex_shared 10) = Some 7 \<and>
   move_sink_to 4 ex_shared 0 9 0 False = Inr ex_shared_moved \<and>
   s_right (stmts ex_shared_moved 1) = 10 \<and> left (vars ex_shared_moved 10) = Some 9 \<and>
   right (vars ex_shared_moved 10) = Some 7 \<and>
   sinks (vars ex_shared_moved 0) = [] \<and> sinks (vars ex_shared_moved 9) = [0]"
proof -
  have "sources (vars ex_kept 0) = [2]" "s_left (stmts ex_kept 2) = 0" "s_right (stmts ex_kept 2) = 9"
    by code_simp+
  moreover have "sinks (vars ex_shared 0) = [0, 1]" "generator_parent (stmts ex_shared 1) = Some 1"
    "s_right (stmts ex_shared 1) = 10" "left (vars ex_shared 10) = Some 0"
    "right (vars ex_shared 10) = Some 7"
    by code_simp+
  moreover have "s_right (stmts ex_shared_moved 1) = 10" "left (vars ex_shared_moved 10) = Some 9"
    "right (vars ex_shared_moved 10) = Some 7"
    "sinks (vars ex_shared_moved 0) = []" "sinks (vars ex_shared_moved 9) = [0]"
    by code_simp+
  ultimately show ?thesis using ex_kept_result ex_shared_moved_result by simp
qed

text \<open>
  In \<open>ex_wired\<close>: moving the sources of \<open>a\<close> in scope 0 empties the source set of \<open>a\<close>,
  and statement 1 of scope 1 is unchanged (it still writes \<open>a\<close>); with
  \<^verbatim>\<open>keep_connection\<close> only the new statement 2 can be in the set; moving the sinks of
  \<open>x\<close> empties its sink set. In \<open>ex_sliced\<close>: statement 1 of scope 1 writes the slice
  \<^verbatim>\<open>a[3:0]\<close>, and after the sources of \<open>a\<close> in scope 0 have moved to \<open>z\<close> it is
  unchanged and its written operand is still a view of \<open>a\<close>.
\<close>

theorem relocation_clears_registrations_witness:
  "move_src_to 4 ex_wired 0 2 0 False = Inr ex_moved \<and> sources (vars ex_wired 0) = [0, 1] \<and>
   generator_parent (stmts ex_wired 1) = Some 1 \<and> s_left (stmts ex_wired 1) = 0 \<and>
   sources (vars ex_moved 0) = [] \<and> stmts ex_moved 1 = stmts ex_wired 1 \<and>
   move_src_to 4 ex_wired 0 9 0 True = Inr ex_kept \<and> set (sources (vars ex_kept 0)) \<subseteq> {2} \<and>
   stmts ex_kept 1 = stmts ex_wired 1 \<and>
   move_sink_to 4 ex_wired 7 9 0 False = Inr ex_sunk \<and> sinks (vars ex_sunk 7) = [] \<and>
   move_src_to 4 ex_sliced 0 9 0 False = Inr ex_sliced_moved \<and>
   view_of ex_sliced (s_left (stmts ex_sliced 1)) 0 \<and>
   stmts ex_sliced_moved 1 = stmts ex_sliced 1 \<and>
   view_of ex_sliced_moved (s_left (stmts ex_sliced_moved 1)) 0"
proof -
  note T = relocation_clears_registrations
  note t1 = T [of 4 ex_wired 0 2 0 False ex_moved, THEN conjunct1, rule_format, OF ex_moved_result]
  note t2 = T [of 4 ex_wired 0 9 0 True ex_kept, THEN conjunct1, rule_format, OF ex_kept_result]
  note t3 = T [of 4 ex_wired 7 9 0 False ex_sunk, THEN conjunct2, rule_format, OF ex_sunk_result]
  note t4 = T [of 4 ex_sliced 0 9 0 False ex_sliced_moved, THEN conjunct1, rule_format,
      OF ex_sliced_moved_result]
  have a: "sources (vars ex_moved 0) = []" using t1 by simp
  have m: "(1::nat) \<in> set (sources (vars ex_wired 0))"
    "(1::nat) < next_stmt ex_wired \<and> generator_parent (stmts ex_wired 1) \<noteq> Some 0"
    by (simp_all add: ex_wired_facts)
  have b: "stmts ex_moved 1 = stmts ex_wired 1"
    using t1 [THEN conjunct2, THEN conjunct2, rule_format, OF m] by simp
  have c: "set (sources (vars ex_kept 0)) \<subseteq> {2}" using t2 by (simp add: ex_wired_facts)
  have d: "stmts ex_kept 1 = stmts ex_wired 1"
    using t2 [THEN conjunct2, THEN conjunct2, rule_format, OF m] by simp
  have e: "sinks (vars ex_sunk 7) = []" using t3 by simp
  have ms: "(1::nat) \<in> set (sources (vars ex_sliced 0))"
    "(1::nat) < next_stmt ex_sliced \<and> generator_parent (stmts ex_sliced 1) \<noteq> Some 0"
    by (simp_all add: ex_sliced_facts)
  have vw: "view_of ex_sliced (s_left (stmts ex_sliced 1)) 0"
    unfolding ex_sliced_facts
    by (rule view_of.up [OF _ _ view_of.self]) (simp_all add: ex_sliced_facts)
  have al: "s_left (stmts ex_sliced 1) < next_var ex_sliced" by (simp add: ex_sliced_facts)
  note u = t4 [THEN conjunct2, THEN conjunct2, rule_format, OF ms]
  have f: "stmts ex_sliced_moved 1 = stmts ex_sliced 1" using u by simp
  have g: "view_of ex_sliced_moved (s_left (stmts ex_sliced_moved 1)) 0"
    using u [THEN conjunct2, THEN conjunct2, rule_format] ex_sliced_wf vw al by blast
  show ?thesis
    using a b c d e f g vw ex_moved_result ex_kept_result ex_sunk_result ex_sliced_moved_result
    by (simp add: ex_wired_facts)
qed

text \<open>
  C1. The source at the input \<^verbatim>\<open>Var::move_src_to(a, c, scope 0, false)\<close> in \<open>ex_wired\<close>,
  where \<open>a\<close> is 8 bits wide and unsigned and \<open>c\<close> is 4 bits wide and signed. The call
  succeeds: statement 0, which was \<open>a := x\<close> in scope 0, now writes the 4-bit signed \<open>c\<close>
  from the 8-bit unsigned \<open>x\<close>. The width and sign checks of \<^verbatim>\<open>move_linked_to\<close> compare
  \<open>c\<close> with itself, because \<^verbatim>\<open>left\<close> in \<^verbatim>\<open>stmt_set_left\<close> is a reference to the member
  that \<^verbatim>\<open>set_left\<close> has just overwritten.
\<close>

theorem move_src_to_at_failing_input:
  "width (vars ex_wired 0) = 8 \<and> \<not> is_signed (vars ex_wired 0) \<and>
   width (vars ex_wired 2) = 4 \<and> is_signed (vars ex_wired 2) \<and>
   s_left (stmts ex_wired 0) = 0 \<and> s_right (stmts ex_wired 0) = 7 \<and>
   generator_parent (stmts ex_wired 0) = Some 0 \<and>
   move_src_to 4 ex_wired 0 2 0 False = Inr ex_moved \<and>
   s_left (stmts ex_moved 0) = 2 \<and> s_right (stmts ex_moved 0) = 7 \<and>
   width (vars ex_moved 2) = 4 \<and> is_signed (vars ex_moved 2) \<and>
   width (vars ex_moved 7) = 8 \<and> \<not> is_signed (vars ex_moved 7) \<and>
   sources (vars ex_moved 0) = [] \<and> sources (vars ex_moved 2) = [0]"
proof -
  have "width (vars ex_wired 0) = 8" "\<not> is_signed (vars ex_wired 0)"
   "width (vars ex_wired 2) = 4" "is_signed (vars ex_wired 2)"
   "s_left (stmts ex_wired 0) = 0" "s_right (stmts ex_wired 0) = 7"
   "generator_parent (stmts ex_wired 0) = Some 0"
    by code_simp+
  moreover have "s_left (stmts ex_moved 0) = 2" "s_right (stmts ex_moved 0) = 7"
   "width (vars ex_moved 2) = 4" "is_signed (vars ex_moved 2)"
   "width (vars ex_moved 7) = 8" "\<not> is_signed (vars ex_moved 7)"
   "sources (vars ex_moved 0) = []" "sources (vars ex_moved 2) = [0]"
    by code_simp+
  ultimately show ?thesis using ex_moved_result by simp
qed


subsection \<open>Parameters (C8)\<close>

lemma width_step_refl [simp]: "width_step v st st"
  by (simp add: width_step_def)

lemma width_step_trans:
  assumes "width_step v a b" "width_step v b c"
  shows "width_step v a c"
  unfolding width_step_def
proof (intro allI)
  fix y
  from assms(1) have 1: "param_vars (vars b y) = param_vars (vars a y)"
    "param_params (vars b y) = param_params (vars a y)"
    "size_v (vars b y) = size_v (vars a y)" "is_signed (vars b y) = is_signed (vars a y)"
    "var_width (vars b y) = var_width (vars a y) \<or> var_width (vars b y) = ucast v"
    "value_c (vars b y) = value_c (vars a y) \<or> value_c (vars b y) = v"
    by (simp_all add: width_step_def)
  from assms(2) have 2: "param_vars (vars c y) = param_vars (vars b y)"
    "param_params (vars c y) = param_params (vars b y)"
    "size_v (vars c y) = size_v (vars b y)" "is_signed (vars c y) = is_signed (vars b y)"
    "var_width (vars c y) = var_width (vars b y) \<or> var_width (vars c y) = ucast v"
    "value_c (vars c y) = value_c (vars b y) \<or> value_c (vars c y) = v"
    by (simp_all add: width_step_def)
  show "param_vars (vars c y) = param_vars (vars a y) \<and>
          param_params (vars c y) = param_params (vars a y) \<and>
          size_v (vars c y) = size_v (vars a y) \<and>
          is_signed (vars c y) = is_signed (vars a y) \<and>
          (var_width (vars c y) = var_width (vars a y) \<or> var_width (vars c y) = ucast v) \<and>
          (value_c (vars c y) = value_c (vars a y) \<or> value_c (vars c y) = v)"
    using 1 2 by auto
qed

lemma width_step_keeps:
  assumes "width_step v a b"
  shows "var_width (vars a x) = ucast v \<Longrightarrow> var_width (vars b x) = ucast v"
    and "value_c (vars a x) = v \<Longrightarrow> value_c (vars b x) = v"
    and "param_vars (vars b x) = param_vars (vars a x)"
    and "param_params (vars b x) = param_params (vars a x)"
  using assms [unfolded width_step_def, THEN spec, of x] by auto

lemma Const_set_value_step: "Const_set_value st p v = Inr st1 \<Longrightarrow> width_step v st st1"
  by (auto simp: Const_set_value_def width_step_def split: sum.splits error.splits if_splits)

lemma set_var_width_step [simp]: "width_step v st (set_var_width v st x)"
  by (simp add: set_var_width_def width_step_def)

lemma foldl_set_var_width_step: "width_step v st (foldl (set_var_width v) st xs)"
proof (induction xs arbitrary: st)
  case Nil
  then show ?case by simp
next
  case (Cons x xs)
  show ?case using width_step_trans [OF set_var_width_step Cons [of "set_var_width v st x"]]
    by simp
qed

lemma foldl_set_var_width_sets:
  "x \<in> set xs \<Longrightarrow> var_width (vars (foldl (set_var_width v) st xs) x) = ucast v"
proof (induction xs arbitrary: st)
  case Nil
  then show ?case by simp
next
  case (Cons y ys)
  show ?case
  proof (cases "x \<in> set ys")
    case True
    then show ?thesis using Cons.IH by simp
  next
    case False
    then have "x = y" using Cons.prems by simp
    then have "var_width (vars (set_var_width v st y) x) = ucast v"
      by (simp add: set_var_width_def)
    then show ?thesis
      using width_step_keeps(1) [OF foldl_set_var_width_step [of v "set_var_width v st y" ys]]
      by simp
  qed
qed

text \<open>What one successful call is made of.\<close>

lemma Param_set_value_Suc:
  assumes "Param_set_value (Suc n) st p v = Inr st'"
  obtains st1 where "Const_set_value st p v = Inr st1"
    and "for_each (\<lambda>s q. Param_set_value n s q v)
           (foldl (set_var_width v) st1 (param_vars (vars st1 p)))
           (param_params (vars (foldl (set_var_width v) st1 (param_vars (vars st1 p))) p)) = Inr st'"
  using assms by (auto simp: Let_def split: if_splits sum.splits)

lemma Param_set_value_step:
  "Param_set_value n st p v = Inr st' \<Longrightarrow> width_step v st st'"
proof (induction n arbitrary: st p st')
  case 0
  then show ?case by simp
next
  case (Suc n)
  from Suc.prems obtain st1 where c: "Const_set_value st p v = Inr st1"
    and fe: "for_each (\<lambda>s q. Param_set_value n s q v)
           (foldl (set_var_width v) st1 (param_vars (vars st1 p)))
           (param_params (vars (foldl (set_var_width v) st1 (param_vars (vars st1 p))) p)) = Inr st'"
    by (rule Param_set_value_Suc)
  let ?st2 = "foldl (set_var_width v) st1 (param_vars (vars st1 p))"
  have 2: "width_step v st ?st2"
    using width_step_trans [OF Const_set_value_step [OF c] foldl_set_var_width_step] .
  show ?case
  proof (rule for_each_inv [where P = "width_step v st", OF _ 2 fe])
    fix s x s' assume "width_step v st s" "Param_set_value n s x v = Inr s'"
    then show "width_step v st s'" using Suc.IH width_step_trans by blast
  qed
qed

lemma for_each_visit:
  assumes run: "for_each f s xs = Inr s'" and mem: "c \<in> set xs"
    and step: "\<And>a x b. f a x = Inr b \<Longrightarrow> R a b"
    and refl: "\<And>a. R a a" and trans: "\<And>a b c. R a b \<Longrightarrow> R b c \<Longrightarrow> R a c"
  shows "\<exists>a b. R s a \<and> f a c = Inr b \<and> R b s'"
  using run mem
proof (induction xs arbitrary: s)
  case Nil
  then show ?case by simp
next
  case (Cons x xs)
  from Cons.prems(1) obtain s1 where s1: "f s x = Inr s1" "for_each f s1 xs = Inr s'"
    by (cases "f s x") simp_all
  have r1: "R s s1" using step [OF s1(1)] .
  have rest: "R s1 s'"
    by (rule for_each_inv [where P = "R s1", OF _ refl s1(2)]) (use step trans in blast)
  show ?case
  proof (cases "c = x")
    case True
    then show ?thesis using s1(1) rest refl by blast
  next
    case False
    then have "c \<in> set xs" using Cons.prems(2) by simp
    from Cons.IH [OF s1(2) this] obtain a b where "R s1 a" "f a c = Inr b" "R b s'" by blast
    then show ?thesis using trans [OF r1] by blast
  qed
qed

lemma chained_transfer:
  "chained st p q \<Longrightarrow> (\<And>y. param_params (vars s y) = param_params (vars st y)) \<Longrightarrow> chained s p q"
proof (induction rule: chained.induct)
  case (self p)
  show ?case by (rule chained.self)
next
  case (link c p q)
  then show ?case using chained.link [of c s p q] by simp
qed

lemma Param_set_value_widths:
  "Param_set_value n st p v = Inr st' \<Longrightarrow> chained st p q \<Longrightarrow>
   x \<in> set (param_vars (vars st q)) \<Longrightarrow> var_width (vars st' x) = ucast v"
proof (induction n arbitrary: st p st')
  case 0
  then show ?case by simp
next
  case (Suc n)
  from Suc.prems(1) obtain st1 where c: "Const_set_value st p v = Inr st1"
    and fe: "for_each (\<lambda>s q. Param_set_value n s q v)
           (foldl (set_var_width v) st1 (param_vars (vars st1 p)))
           (param_params (vars (foldl (set_var_width v) st1 (param_vars (vars st1 p))) p)) = Inr st'"
    by (rule Param_set_value_Suc)
  let ?st2 = "foldl (set_var_width v) st1 (param_vars (vars st1 p))"
  have w1: "width_step v st st1" using Const_set_value_step [OF c] .
  have w2: "width_step v st ?st2" using width_step_trans [OF w1 foldl_set_var_width_step] .
  have w3: "width_step v ?st2 st'"
  proof (rule for_each_inv [where P = "width_step v ?st2", OF _ _ fe])
    fix s y s' assume "width_step v ?st2 s" "Param_set_value n s y v = Inr s'"
    then show "width_step v ?st2 s'" using Param_set_value_step width_step_trans by blast
  qed simp
  from Suc.prems(2) show ?case
  proof (cases rule: chained.cases)
    case self
    then have "x \<in> set (param_vars (vars st1 p))"
      using Suc.prems(3) width_step_keeps(3) [OF w1, of p] by simp
    then have "var_width (vars ?st2 x) = ucast v" by (rule foldl_set_var_width_sets)
    then show ?thesis using width_step_keeps(1) [OF w3] by simp
  next
    case (link c)
    then have "c \<in> set (param_params (vars ?st2 p))"
      using width_step_keeps(4) [OF w2, of p] by simp
    from for_each_visit [where R = "width_step v", OF fe this]
    obtain a b where a: "width_step v ?st2 a" and f: "Param_set_value n a c v = Inr b"
      and b: "width_step v b st'"
      using Param_set_value_step width_step_trans by (metis width_step_refl)
    have wa: "width_step v st a" using width_step_trans [OF w2 a] .
    have "chained a c q"
      using chained_transfer [OF link(2)] width_step_keeps(4) [OF wa] by simp
    moreover have "x \<in> set (param_vars (vars a q))"
      using Suc.prems(3) width_step_keeps(3) [OF wa, of q] by simp
    ultimately have "var_width (vars b x) = ucast v" using Suc.IH [OF f] by simp
    then show ?thesis using width_step_keeps(1) [OF b] by simp
  qed
qed


lemma range_cong:
  "size_v q' = size_v q \<Longrightarrow> is_signed q' = is_signed q \<Longrightarrow> range_ok v w q' = range_ok v w q"
  "size_v q' = size_v q \<Longrightarrow> is_signed q' = is_signed q \<Longrightarrow>
     range_defined v w q' = range_defined v w q"
  by (simp_all add: range_ok_def range_defined_def)

lemma Const_set_value_fits:
  "range_ok v (var_width (vars st p)) (vars st p) \<Longrightarrow>
   \<exists>st1. Const_set_value st p v = Inr st1 \<and> value_c (vars st1 p) = v"
  by (simp add: Const_set_value_def range_ok_def width_def)

lemma Const_set_value_defined:
  "range_defined v (var_width (vars st p)) (vars st p) \<Longrightarrow> \<exists>st1. Const_set_value st p v = Inr st1"
  by (cases "Const_range_check v (width (vars st p)) (is_signed (vars st p))")
    (auto simp: Const_set_value_def range_defined_def width_def split: error.splits)

lemma for_each_succeeds:
  assumes "\<And>s x. I s \<Longrightarrow> x \<in> set xs \<Longrightarrow> \<exists>s'. f s x = Inr s' \<and> I s'" and "I s"
  shows "\<exists>s'. for_each f s xs = Inr s'"
  using assms
proof (induction xs arbitrary: s)
  case Nil
  then show ?case by simp
next
  case (Cons x xs)
  from Cons.prems(1) [OF Cons.prems(2), of x] obtain s1 where s1: "f s x = Inr s1" "I s1" by auto
  have "\<exists>s'. for_each f s1 xs = Inr s'"
  proof (rule Cons.IH [OF _ s1(2)])
    fix t y assume "I t" "y \<in> set xs"
    then show "\<exists>s'. f t y = Inr s' \<and> I s'" using Cons.prems(1) [of t y] by simp
  qed
  then show ?case using s1(1) by simp
qed

lemma chain_within_transfer:
  "chain_within d st p \<Longrightarrow> (\<And>y. param_params (vars s y) = param_params (vars st y)) \<Longrightarrow>
   chain_within d s p"
  by (induction d arbitrary: p) simp_all

lemma chained_cong:
  assumes "\<And>z. param_params (vars s z) = param_params (vars st z)"
  shows "chained s x y = chained st x y"
  using chained_transfer [of s x y st] chained_transfer [of st x y s] assms by auto

lemma pic_cong:
  assumes "\<And>z. param_params (vars s z) = param_params (vars st z)"
    and "\<And>z. param_vars (vars s z) = param_vars (vars st z)"
  shows "parametrized_in_chain s x y = parametrized_in_chain st x y"
  unfolding parametrized_in_chain_def using chained_cong [OF assms(1)] assms(2) by simp

lemma pic_link:
  "x \<in> set (param_params (vars st p)) \<Longrightarrow> parametrized_in_chain st x y \<Longrightarrow>
   parametrized_in_chain st p y"
  unfolding parametrized_in_chain_def using chained.link by blast

lemma pic_self: "y \<in> set (param_vars (vars st p)) \<Longrightarrow> parametrized_in_chain st p y"
  unfolding parametrized_in_chain_def using chained.self by blast

lemma chain_step_width: "chain_step v st p s \<Longrightarrow> width_step v st s"
  by (simp add: chain_step_def)

lemma chain_step_compose:
  assumes a: "chain_step v st p s" and x: "x \<in> set (param_params (vars st p))"
    and b: "chain_step v s x s'"
  shows "chain_step v st p s'"
proof -
  have ws: "width_step v st s" using a by (rule chain_step_width)
  have ws': "width_step v s s'" using b by (rule chain_step_width)
  have pp: "\<And>z. param_params (vars s z) = param_params (vars st z)"
    and pv: "\<And>z. param_vars (vars s z) = param_vars (vars st z)"
    using width_step_keeps(3,4) [OF ws] by simp_all
  have ch: "\<And>y. chained s x y \<Longrightarrow> chained st p y"
    using chained_cong [OF pp] chained.link [OF x] by simp
  have pic: "\<And>y. parametrized_in_chain s x y \<Longrightarrow> parametrized_in_chain st p y"
    using pic_cong [OF pp pv] pic_link [OF x] by simp
  have rc: "\<And>y w. range_ok v w (vars s y) = range_ok v w (vars st y)"
    using ws by (intro range_cong) (simp_all add: width_step_def)
  show ?thesis
    unfolding chain_step_def
  proof (intro conjI allI)
    show "width_step v st s'" using width_step_trans [OF ws ws'] .
  next
    fix y
    from a have 1: "var_width (vars s y) = var_width (vars st y) \<or>
             var_width (vars s y) = ucast v \<and> parametrized_in_chain st p y"
      by (simp add: chain_step_def)
    from b have 2: "var_width (vars s' y) = var_width (vars s y) \<or>
             var_width (vars s' y) = ucast v \<and> parametrized_in_chain s x y"
      by (simp add: chain_step_def)
    show "var_width (vars s' y) = var_width (vars st y) \<or>
             var_width (vars s' y) = ucast v \<and> parametrized_in_chain st p y"
      using 1 2 pic [of y] by auto
  next
    fix y
    from a have 1: "var_width (vars s y) = var_width (vars st y) \<or>
             var_width (vars s y) = ucast v \<and> parametrized_in_chain st p y"
      by (simp add: chain_step_def)
    from a have 3: "value_c (vars s y) = value_c (vars st y) \<or>
             value_c (vars s y) = v \<and> chained st p y \<and>
             (range_ok v (var_width (vars st y)) (vars st y) \<or>
              parametrized_in_chain st p y \<and> range_ok v (ucast v) (vars st y))"
      by (simp add: chain_step_def)
    from b have 4: "value_c (vars s' y) = value_c (vars s y) \<or>
             value_c (vars s' y) = v \<and> chained s x y \<and>
             (range_ok v (var_width (vars s y)) (vars s y) \<or>
              parametrized_in_chain s x y \<and> range_ok v (ucast v) (vars s y))"
      by (simp add: chain_step_def)
    show "value_c (vars s' y) = value_c (vars st y) \<or>
             value_c (vars s' y) = v \<and> chained st p y \<and>
             (range_ok v (var_width (vars st y)) (vars st y) \<or>
              parametrized_in_chain st p y \<and> range_ok v (ucast v) (vars st y))"
    proof (cases "value_c (vars s' y) = value_c (vars s y)")
      case True
      then show ?thesis using 3 by auto
    next
      case False
      then have 5: "value_c (vars s' y) = v" "chained s x y"
        "range_ok v (var_width (vars s y)) (vars s y) \<or>
              parametrized_in_chain s x y \<and> range_ok v (ucast v) (vars s y)"
        using 4 by auto
      have "range_ok v (var_width (vars st y)) (vars st y) \<or>
              parametrized_in_chain st p y \<and> range_ok v (ucast v) (vars st y)"
        using 5(3) 1 pic [of y] rc by auto
      then show ?thesis using 5(1) ch [OF 5(2)] by simp
    qed
  qed
qed

lemma foldl_set_var_width_cases:
  "vars (foldl (set_var_width v) st xs) y =
     (if y \<in> set xs then (vars st y)\<lparr>var_width := ucast v\<rparr> else vars st y)"
proof (induction xs arbitrary: st)
  case Nil
  then show ?case by simp
next
  case (Cons x xs)
  show ?case by (simp add: Cons.IH) (simp add: set_var_width_def)
qed

lemma Const_set_value_cases:
  assumes "Const_set_value st p v = Inr st1"
  shows "st1 = st \<or>
         st1 = st\<lparr>vars := (vars st)(p := (vars st p)\<lparr>value_c := v\<rparr>)\<rparr> \<and>
         range_ok v (var_width (vars st p)) (vars st p)"
  using assms
  by (auto simp: Const_set_value_def range_ok_def width_def split: sum.splits error.splits)

text \<open>The first two stages of a call: the parameter's own value and its signals.\<close>

lemma chain_step_head:
  assumes c: "Const_set_value st p v = Inr st1"
  shows "chain_step v st p (foldl (set_var_width v) st1 (param_vars (vars st1 p)))"
proof -
  let ?st2 = "foldl (set_var_width v) st1 (param_vars (vars st1 p))"
  have w1: "width_step v st st1" using Const_set_value_step [OF c] .
  have w2: "width_step v st ?st2" using width_step_trans [OF w1 foldl_set_var_width_step] .
  have pv: "param_vars (vars st1 p) = param_vars (vars st p)" using width_step_keeps(3) [OF w1] .
  show ?thesis
    unfolding chain_step_def
  proof (intro conjI allI)
    show "width_step v st ?st2" by (rule w2)
  next
    fix y
    have "var_width (vars st1 y) = var_width (vars st y)"
      using Const_set_value_cases [OF c] by auto
    then show "var_width (vars ?st2 y) = var_width (vars st y) \<or>
             var_width (vars ?st2 y) = ucast v \<and> parametrized_in_chain st p y"
      using pv pic_self [of y st p] by (simp add: foldl_set_var_width_cases)
  next
    fix y
    have e: "value_c (vars ?st2 y) = value_c (vars st1 y)"
      by (simp add: foldl_set_var_width_cases)
    from Const_set_value_cases [OF c]
    show "value_c (vars ?st2 y) = value_c (vars st y) \<or>
             value_c (vars ?st2 y) = v \<and> chained st p y \<and>
             (range_ok v (var_width (vars st y)) (vars st y) \<or>
              parametrized_in_chain st p y \<and> range_ok v (ucast v) (vars st y))"
      unfolding e using chained.self [of st p] by (cases "y = p") auto
  qed
qed

lemma Param_set_value_chain_step:
  "Param_set_value n st p v = Inr st' \<Longrightarrow> chain_step v st p st'"
proof (induction n arbitrary: st p st')
  case 0
  then show ?case by simp
next
  case (Suc n)
  from Suc.prems obtain st1 where c: "Const_set_value st p v = Inr st1"
    and fe: "for_each (\<lambda>s q. Param_set_value n s q v)
           (foldl (set_var_width v) st1 (param_vars (vars st1 p)))
           (param_params (vars (foldl (set_var_width v) st1 (param_vars (vars st1 p))) p)) = Inr st'"
    by (rule Param_set_value_Suc)
  let ?st2 = "foldl (set_var_width v) st1 (param_vars (vars st1 p))"
  have h: "chain_step v st p ?st2" using chain_step_head [OF c] .
  have pp: "param_params (vars ?st2 p) = param_params (vars st p)"
    using width_step_keeps(4) [OF chain_step_width [OF h]] .
  show ?case
  proof (rule for_each_inv [where P = "chain_step v st p", OF _ h fe])
    fix s x s'
    assume "chain_step v st p s" "x \<in> set (param_params (vars ?st2 p))"
      "Param_set_value n s x v = Inr s'"
    then show "chain_step v st p s'"
      using chain_step_compose [of v st p s x s'] Suc.IH [of s x s'] pp by simp
  qed
qed

lemma for_each_visit_inv:
  assumes run: "for_each f s xs = Inr s'" and mem: "c \<in> set xs" and init: "I s"
    and step: "\<And>a x b. I a \<Longrightarrow> x \<in> set xs \<Longrightarrow> f a x = Inr b \<Longrightarrow> I b"
    and rstep: "\<And>a x b. f a x = Inr b \<Longrightarrow> R a b"
    and refl: "\<And>a. R a a" and trans: "\<And>a b c. R a b \<Longrightarrow> R b c \<Longrightarrow> R a c"
  shows "\<exists>a b. I a \<and> f a c = Inr b \<and> R b s'"
  using run mem init step
proof (induction xs arbitrary: s)
  case Nil
  then show ?case by simp
next
  case (Cons x xs)
  from Cons.prems(1) obtain s1 where s1: "f s x = Inr s1" "for_each f s1 xs = Inr s'"
    by (cases "f s x") simp_all
  have i1: "I s1" by (rule Cons.prems(4) [OF Cons.prems(3) _ s1(1)]) simp
  have rest: "R s1 s'"
    by (rule for_each_inv [where P = "R s1", OF _ refl s1(2)]) (use rstep trans in blast)
  show ?case
  proof (cases "c = x")
    case True
    then show ?thesis using s1(1) rest Cons.prems(3) by blast
  next
    case False
    then have m: "c \<in> set xs" using Cons.prems(2) by simp
    show ?thesis
    proof (rule Cons.IH [OF s1(2) m i1])
      fix a y b assume "I a" "y \<in> set xs" "f a y = Inr b"
      then show "I b" using Cons.prems(4) [of a y b] by simp
    qed
  qed
qed

lemma Param_set_value_values:
  "Param_set_value n st p v = Inr st' \<Longrightarrow> chained st p q \<Longrightarrow>
   range_ok v (var_width (vars st q)) (vars st q) \<Longrightarrow>
   (parametrized_in_chain st p q \<Longrightarrow> range_ok v (ucast v) (vars st q)) \<Longrightarrow>
   value_c (vars st' q) = v"
proof (induction n arbitrary: st p st')
  case 0
  then show ?case by simp
next
  case (Suc n)
  from Suc.prems(1) obtain st1 where c: "Const_set_value st p v = Inr st1"
    and fe: "for_each (\<lambda>s q. Param_set_value n s q v)
           (foldl (set_var_width v) st1 (param_vars (vars st1 p)))
           (param_params (vars (foldl (set_var_width v) st1 (param_vars (vars st1 p))) p)) = Inr st'"
    by (rule Param_set_value_Suc)
  let ?st2 = "foldl (set_var_width v) st1 (param_vars (vars st1 p))"
  have w12: "width_step v st1 ?st2" by (rule foldl_set_var_width_step)
  have h: "chain_step v st p ?st2" using chain_step_head [OF c] .
  have pp: "param_params (vars ?st2 p) = param_params (vars st p)"
    using width_step_keeps(4) [OF chain_step_width [OF h]] .
  have w3: "width_step v ?st2 st'"
  proof (rule for_each_inv [where P = "width_step v ?st2", OF _ _ fe])
    fix s y s' assume "width_step v ?st2 s" "Param_set_value n s y v = Inr s'"
    then show "width_step v ?st2 s'" using Param_set_value_step width_step_trans by blast
  qed simp
  from Suc.prems(2) show ?case
  proof (cases rule: chained.cases)
    case self
    then have "value_c (vars st1 p) = v"
      using Const_set_value_fits [of v st p] Suc.prems(3) c by auto
    then show ?thesis
      using width_step_keeps(2) [OF width_step_trans [OF w12 w3]] self by simp
  next
    case (link c)
    then have m: "c \<in> set (param_params (vars ?st2 p))" using pp by simp
    have "\<exists>a b. chain_step v st p a \<and> Param_set_value n a c v = Inr b \<and> width_step v b st'"
    proof (rule for_each_visit_inv [where R = "width_step v" and I = "chain_step v st p", OF fe m h])
      fix a x b
      assume "chain_step v st p a" "x \<in> set (param_params (vars ?st2 p))"
        "Param_set_value n a x v = Inr b"
      then show "chain_step v st p b"
        using chain_step_compose [of v st p a x b] Param_set_value_chain_step [of n a x v b] pp
        by simp
    next
      fix a x b assume "Param_set_value n a x v = Inr b"
      then show "width_step v a b" by (rule Param_set_value_step)
    next
      fix a show "width_step v a a" by simp
    next
      fix a b c assume "width_step v a b" "width_step v b c"
      then show "width_step v a c" by (rule width_step_trans)
    qed
    then obtain a b where a: "chain_step v st p a" and f: "Param_set_value n a c v = Inr b"
      and b: "width_step v b st'" by blast
    have wa: "width_step v st a" using chain_step_width [OF a] .
    have ppa: "\<And>z. param_params (vars a z) = param_params (vars st z)"
      and pva: "\<And>z. param_vars (vars a z) = param_vars (vars st z)"
      using width_step_keeps(3,4) [OF wa] by simp_all
    have ch: "chained a c q" using link(2) chained_cong [OF ppa] by simp
    have rc: "\<And>w. range_ok v w (vars a q) = range_ok v w (vars st q)"
      using wa by (intro range_cong) (simp_all add: width_step_def)
    have wq: "var_width (vars a q) = var_width (vars st q) \<or>
             var_width (vars a q) = ucast v \<and> parametrized_in_chain st p q"
      using a by (simp add: chain_step_def)
    have r1: "range_ok v (var_width (vars a q)) (vars a q)"
    proof (cases "var_width (vars a q) = var_width (vars st q)")
      case True
      then show ?thesis using Suc.prems(3) rc [of "var_width (vars st q)"] by simp
    next
      case False
      then have "var_width (vars a q) = ucast v" "parametrized_in_chain st p q" using wq by auto
      then show ?thesis using Suc.prems(4) rc [of "ucast v"] by simp
    qed
    have r2: "parametrized_in_chain a c q \<Longrightarrow> range_ok v (ucast v) (vars a q)"
    proof -
      assume "parametrized_in_chain a c q"
      then have "parametrized_in_chain st c q" using pic_cong [OF ppa pva, of c q] by simp
      then have "parametrized_in_chain st p q" by (rule pic_link [OF link(1)])
      then show "range_ok v (ucast v) (vars a q)" using Suc.prems(4) rc [of "ucast v"] by simp
    qed
    have "value_c (vars b q) = v" using Suc.IH [OF f ch r1 r2] .
    then show ?thesis using width_step_keeps(2) [OF b] by simp
  qed
qed

lemma Param_set_value_value_kept:
  assumes "Param_set_value n st p v = Inr st'"
    and "\<not> range_ok v (var_width (vars st q)) (vars st q)"
    and "parametrized_in_chain st p q \<Longrightarrow> \<not> range_ok v (ucast v) (vars st q)"
  shows "value_c (vars st' q) = value_c (vars st q)"
  using Param_set_value_chain_step [OF assms(1)] assms(2,3)
  by (auto simp: chain_step_def)

lemma Param_set_value_returns:
  "chain_within d st p \<Longrightarrow>
   (\<And>q. chained st p q \<Longrightarrow> (0 < sint v \<or> param_vars (vars st q) = []) \<and>
        range_defined v (var_width (vars st q)) (vars st q) \<and>
        (parametrized_in_chain st p q \<longrightarrow> range_defined v (ucast v) (vars st q))) \<Longrightarrow>
   \<exists>st'. Param_set_value (Suc d) st p v = Inr st'"
proof (induction d arbitrary: st p)
  case 0
  note h0 = 0(2) [OF chained.self]
  from Const_set_value_defined [of v st p] h0
  obtain st1 where c: "Const_set_value st p v = Inr st1" by blast
  let ?st2 = "foldl (set_var_width v) st1 (param_vars (vars st1 p))"
  have w2: "width_step v st ?st2"
    using width_step_trans [OF Const_set_value_step [OF c] foldl_set_var_width_step] .
  have "param_params (vars ?st2 p) = []"
    using width_step_keeps(4) [OF w2, of p] 0(1) by simp
  moreover have "\<not> (sint v \<le> 0 \<and> param_vars (vars st p) \<noteq> [])" using h0 by auto
  ultimately show ?case using c by (simp add: Let_def)
next
  case (Suc d)
  note h0 = Suc.prems(2) [OF chained.self]
  have pos: "\<not> (sint v \<le> 0 \<and> param_vars (vars st p) \<noteq> [])" using h0 by auto
  from Const_set_value_defined [of v st p] h0
  obtain st1 where c: "Const_set_value st p v = Inr st1" by blast
  let ?st2 = "foldl (set_var_width v) st1 (param_vars (vars st1 p))"
  have h: "chain_step v st p ?st2" using chain_step_head [OF c] .
  have pp: "param_params (vars ?st2 p) = param_params (vars st p)"
    using width_step_keeps(4) [OF chain_step_width [OF h]] .
  have "\<exists>s'. for_each (\<lambda>s q. Param_set_value (Suc d) s q v) ?st2 (param_params (vars st p)) = Inr s'"
  proof (rule for_each_succeeds [where I = "chain_step v st p", OF _ h])
    fix s x assume cs: "chain_step v st p s" and x: "x \<in> set (param_params (vars st p))"
    have ws: "width_step v st s" using chain_step_width [OF cs] .
    have eq: "\<And>y. param_params (vars s y) = param_params (vars st y)"
      and ev: "\<And>y. param_vars (vars s y) = param_vars (vars st y)"
      using width_step_keeps(3,4) [OF ws] by simp_all
    have cw: "chain_within d s x"
      using Suc.prems(1) x chain_within_transfer [of d st x s] eq by simp
    have rd: "\<And>q. chained s x q \<Longrightarrow> (0 < sint v \<or> param_vars (vars s q) = []) \<and>
        range_defined v (var_width (vars s q)) (vars s q) \<and>
        (parametrized_in_chain s x q \<longrightarrow> range_defined v (ucast v) (vars s q))"
    proof -
      fix q assume "chained s x q"
      then have "chained st x q" using chained_cong [OF eq] by simp
      then have cq: "chained st p q" using chained.link [OF x] by simp
      have rc: "\<And>w. range_defined v w (vars s q) = range_defined v w (vars st q)"
        using ws by (intro range_cong) (simp_all add: width_step_def)
      have wq: "var_width (vars s q) = var_width (vars st q) \<or>
             var_width (vars s q) = ucast v \<and> parametrized_in_chain st p q"
        using cs by (simp add: chain_step_def)
      have pq: "parametrized_in_chain s x q \<Longrightarrow> parametrized_in_chain st p q"
        using pic_cong [OF eq ev] pic_link [OF x] by simp
      note h = Suc.prems(2) [OF cq]
      have 0: "0 < sint v \<or> param_vars (vars s q) = []" using h ev [of q] by simp
      have 1: "range_defined v (var_width (vars s q)) (vars s q)"
      proof (cases "var_width (vars s q) = var_width (vars st q)")
        case True
        then show ?thesis using h rc [of "var_width (vars st q)"] by simp
      next
        case False
        then have "var_width (vars s q) = ucast v" "parametrized_in_chain st p q" using wq by auto
        then show ?thesis using h rc [of "ucast v"] by simp
      qed
      have 2: "parametrized_in_chain s x q \<longrightarrow> range_defined v (ucast v) (vars s q)"
      proof
        assume "parametrized_in_chain s x q"
        then have "parametrized_in_chain st p q" by (rule pq)
        then show "range_defined v (ucast v) (vars s q)" using h rc [of "ucast v"] by simp
      qed
      show "(0 < sint v \<or> param_vars (vars s q) = []) \<and>
        range_defined v (var_width (vars s q)) (vars s q) \<and>
        (parametrized_in_chain s x q \<longrightarrow> range_defined v (ucast v) (vars s q))"
        using 0 1 2 by blast
    qed
    from Suc.IH [OF cw rd] obtain s' where s': "Param_set_value (Suc d) s x v = Inr s'"
      by blast
    have "chain_step v st p s'"
      using chain_step_compose [OF cs x Param_set_value_chain_step [OF s']] .
    then show "\<exists>s'. Param_set_value (Suc d) s x v = Inr s' \<and> chain_step v st p s'" using s' by blast
  qed
  then show ?case using c pos pp by (simp add: Let_def)
qed

lemma narrowed_value:
  assumes "0 \<le> sint (v :: int64)" "sint v < 2 ^ 32"
  shows "uint (ucast v :: uint32) = sint v"
proof -
  have lt: "sint v < 2 ^ 64" using assms(2) by simp
  have "uint v = take_bit 64 (sint v)" using uint_sint [of v] by simp
  also have "\<dots> = sint v" using assms(1) lt by (rule take_bit_int_eq_self)
  finally have u: "uint v = sint v" .
  have "uint (ucast v :: uint32) = take_bit 32 (uint v)" by (simp add: unsigned_ucast_eq)
  also have "\<dots> = take_bit 32 (sint v)" using u by simp
  also have "\<dots> = sint v" using assms by (rule take_bit_int_eq_self)
  finally show ?thesis .
qed

text \<open>
  C8, as the source has it. Setting a non-positive value on a parameter that has a
  dependent signal fails with a \<open>VarException\<close>. When setting the value succeeds, every
  signal parametrized by the parameter itself or by a parameter chained to it, at any
  depth, has the new value as its element width (narrowed to 32 bits, which is the
  value itself when it is below \<open>2 ^ 32\<close>, see \<open>narrowed_value\<close>). Each parameter of the
  chain has the new value as its own value when the value passes the range check of that
  parameter, and the value it had when it does not; the check is made at the width the
  parameter had before the call and, only for a parameter that is itself a dependent
  signal of a parameter of the chain, possibly at the new value as width. Setting a
  value returns when the chain below the parameter has bounded depth, the value is
  positive or no parameter of the chain has a dependent signal, and no such range check
  runs into an undefined shift.
\<close>

theorem Param_set_value_effect:
  "(sint v \<le> 0 \<and> param_vars (vars st p) \<noteq> [] \<longrightarrow>
      Param_set_value (Suc n) st p v =
        Inl (VarException
          ''{0} is used for parametrizing variable width, thus cannot be non-positive ({1})''
          [ToString p, I64 v] [p]))
   \<and> (Param_set_value n st p v = Inr st' \<and> chained st p q \<longrightarrow>
        (\<forall>x\<in>set (param_vars (vars st q)). var_width (vars st' x) = ucast v) \<and>
        (range_ok v (var_width (vars st q)) (vars st q) \<and>
         (parametrized_in_chain st p q \<longrightarrow> range_ok v (ucast v) (vars st q)) \<longrightarrow>
           value_c (vars st' q) = v) \<and>
        (\<not> range_ok v (var_width (vars st q)) (vars st q) \<and>
         (parametrized_in_chain st p q \<longrightarrow> \<not> range_ok v (ucast v) (vars st q)) \<longrightarrow>
           value_c (vars st' q) = value_c (vars st q)))
   \<and> (chain_within d st p \<and>
      (\<forall>r. chained st p r \<longrightarrow> (0 < sint v \<or> param_vars (vars st r) = []) \<and>
           range_defined v (var_width (vars st r)) (vars st r) \<and>
           (parametrized_in_chain st p r \<longrightarrow> range_defined v (ucast v) (vars st r))) \<longrightarrow>
        (\<exists>st1. Param_set_value (Suc d) st p v = Inr st1))"
proof (intro conjI)
  show "sint v \<le> 0 \<and> param_vars (vars st p) \<noteq> [] \<longrightarrow>
      Param_set_value (Suc n) st p v =
        Inl (VarException
          ''{0} is used for parametrizing variable width, thus cannot be non-positive ({1})''
          [ToString p, I64 v] [p])"
    by simp
next
  show "Param_set_value n st p v = Inr st' \<and> chained st p q \<longrightarrow>
        (\<forall>x\<in>set (param_vars (vars st q)). var_width (vars st' x) = ucast v) \<and>
        (range_ok v (var_width (vars st q)) (vars st q) \<and>
         (parametrized_in_chain st p q \<longrightarrow> range_ok v (ucast v) (vars st q)) \<longrightarrow>
           value_c (vars st' q) = v) \<and>
        (\<not> range_ok v (var_width (vars st q)) (vars st q) \<and>
         (parametrized_in_chain st p q \<longrightarrow> \<not> range_ok v (ucast v) (vars st q)) \<longrightarrow>
           value_c (vars st' q) = value_c (vars st q))"
    using Param_set_value_widths [of n st p v st' q] Param_set_value_values [of n st p v st' q]
      Param_set_value_value_kept [of n st p v st' q]
    by blast
next
  show "chain_within d st p \<and>
      (\<forall>r. chained st p r \<longrightarrow> (0 < sint v \<or> param_vars (vars st r) = []) \<and>
           range_defined v (var_width (vars st r)) (vars st r) \<and>
           (parametrized_in_chain st p r \<longrightarrow> range_defined v (ucast v) (vars st r))) \<longrightarrow>
        (\<exists>st1. Param_set_value (Suc d) st p v = Inr st1)"
    using Param_set_value_returns [of d st p v] by blast
qed

lemma ex_params_set_result: "Param_set_value 3 ex_params 7 16 = Inr ex_params_set"
  unfolding ex_params_set_def by (rule Inr_projection) code_simp

lemma ex_params_facts:
  "param_params (vars ex_params 7) = [8]" "param_vars (vars ex_params 7) = [9, 10]"
  "param_params (vars ex_params 8) = []" "param_vars (vars ex_params 8) = [11]"
  "value_c (vars ex_params 8) = 8"
  by (simp_all add: ex_params_def ex_st_def init_var_def)

lemma ex_params_chain:
  assumes "chained ex_params 7 r"
  shows "r = 7 \<or> r = 8"
  using assms
proof (cases rule: chained.cases)
  case self
  then show ?thesis by simp
next
  case (link c)
  then have "c = 8" by (simp add: ex_params_facts)
  with link(2) have "chained ex_params 8 r" by simp
  then show ?thesis by (cases rule: chained.cases) (simp_all add: ex_params_facts)
qed

lemma ex_params_ranges:
  "range_ok 16 (var_width (vars ex_params 7)) (vars ex_params 7)"
  "range_ok 16 (ucast (16 :: int64)) (vars ex_params 7)"
  "range_defined 16 (var_width (vars ex_params 7)) (vars ex_params 7)"
  "range_defined 16 (ucast (16 :: int64)) (vars ex_params 7)"
  "range_defined 16 (var_width (vars ex_params 8)) (vars ex_params 8)"
  "range_defined 16 (ucast (16 :: int64)) (vars ex_params 8)"
  "\<not> range_ok 16 (var_width (vars ex_params 8)) (vars ex_params 8)"
  by code_simp+

text \<open>
  C8 as stated fails: \<open>Q\<close> is chained to \<open>P\<close>; after \<open>P\<close> is set to 16 the value of \<open>P\<close> is
  16 and the signal of \<open>Q\<close> is 16 bits wide, but the value of \<open>Q\<close> is still 8, since 16 is
  out of range for the 4-bit \<open>Q\<close> and \<^verbatim>\<open>Const::set_value\<close> swallows the range error.
\<close>

theorem chained_value_counterexample:
  "8 \<in> set (param_params (vars ex_params 7)) \<and>
   Param_set_value 3 ex_params 7 16 = Inr ex_params_set \<and>
   value_c (vars ex_params_set 7) = 16 \<and> value_c (vars ex_params_set 8) = 8 \<and>
   var_width (vars ex_params_set 11) = 16"
proof -
  have "value_c (vars ex_params_set 7) = 16" "value_c (vars ex_params_set 8) = 8"
    "var_width (vars ex_params_set 11) = 16"
    by code_simp+
  then show ?thesis using ex_params_set_result by (simp add: ex_params_facts)
qed

lemma ex_params_big_result: "Param_set_value 3 ex_params 7 100 = Inr ex_params_big"
  unfolding ex_params_big_def by (rule Inr_projection) code_simp

lemma ex_params_not_parametrized:
  "\<not> parametrized_in_chain ex_params 7 7" "\<not> parametrized_in_chain ex_params 7 8"
proof -
  have "\<And>c y. chained ex_params 7 c \<Longrightarrow> y \<in> set (param_vars (vars ex_params c)) \<Longrightarrow>
      y = 9 \<or> y = 10 \<or> y = 11"
  proof -
    fix c y assume c: "chained ex_params 7 c" and y: "y \<in> set (param_vars (vars ex_params c))"
    from c have "c = 7 \<or> c = 8" by (rule ex_params_chain)
    then show "y = 9 \<or> y = 10 \<or> y = 11" using y by (auto simp: ex_params_facts)
  qed
  then show "\<not> parametrized_in_chain ex_params 7 7" "\<not> parametrized_in_chain ex_params 7 8"
    unfolding parametrized_in_chain_def by fastforce+
qed

lemma ex_params_ranges_big:
  "range_ok 100 (var_width (vars ex_params 7)) (vars ex_params 7)"
  "\<not> range_ok 100 (var_width (vars ex_params 8)) (vars ex_params 8)"
  "range_defined 100 (var_width (vars ex_params 7)) (vars ex_params 7)"
  "range_defined 100 (var_width (vars ex_params 8)) (vars ex_params 8)"
  by code_simp+

text \<open>
  In \<open>ex_params\<close>: setting \<open>P\<close> to 0 fails; setting \<open>P\<close> to 16 makes \<open>u\<close>, \<open>w\<close> and \<open>t\<close> 16
  bits wide, gives \<open>P\<close> the value 16 and leaves \<open>Q\<close> its value; setting \<open>P\<close> to 100 gives
  \<open>P\<close> the value 100, leaves \<open>Q\<close> its value and makes \<open>t\<close> 100 bits wide, and two steps are
  enough for it to return.
\<close>

theorem Param_set_value_effect_witness:
  "Param_set_value 3 ex_params 7 0 =
     Inl (VarException
          ''{0} is used for parametrizing variable width, thus cannot be non-positive ({1})''
          [ToString 7, I64 0] [7])
   \<and> Param_set_value 3 ex_params 7 16 = Inr ex_params_set
   \<and> var_width (vars ex_params_set 9) = 16 \<and> var_width (vars ex_params_set 10) = 16
   \<and> var_width (vars ex_params_set 11) = 16 \<and> value_c (vars ex_params_set 7) = 16
   \<and> value_c (vars ex_params_set 8) = value_c (vars ex_params 8)
   \<and> Param_set_value 3 ex_params 7 100 = Inr ex_params_big
   \<and> value_c (vars ex_params_big 7) = 100
   \<and> value_c (vars ex_params_big 8) = value_c (vars ex_params 8)
   \<and> var_width (vars ex_params_big 11) = 100
   \<and> (\<exists>st1. Param_set_value 2 ex_params 7 100 = Inr st1)"
proof -
  note T = Param_set_value_effect
  have c8: "chained ex_params 7 8"
    by (rule chained.link [OF _ chained.self]) (simp add: ex_params_facts)
  have c7: "chained ex_params 7 7" by (rule chained.self)
  note e7 = T [where v = 16 and st = ex_params and p = 7 and n = 3 and st' = ex_params_set
      and q = 7, THEN conjunct2, THEN conjunct1, rule_format, OF conjI [OF ex_params_set_result c7]]
  note e8 = T [where v = 16 and st = ex_params and p = 7 and n = 3 and st' = ex_params_set
      and q = 8, THEN conjunct2, THEN conjunct1, rule_format, OF conjI [OF ex_params_set_result c8]]
  note b7 = T [where v = 100 and st = ex_params and p = 7 and n = 3 and st' = ex_params_big
      and q = 7, THEN conjunct2, THEN conjunct1, rule_format, OF conjI [OF ex_params_big_result c7]]
  note b8 = T [where v = 100 and st = ex_params and p = 7 and n = 3 and st' = ex_params_big
      and q = 8, THEN conjunct2, THEN conjunct1, rule_format, OF conjI [OF ex_params_big_result c8]]
  have w: "var_width (vars ex_params_set 9) = 16" "var_width (vars ex_params_set 10) = 16"
    "var_width (vars ex_params_set 11) = 16"
    using e7 e8 by (simp_all add: ex_params_facts)
  have val: "value_c (vars ex_params_set 7) = 16"
    using e7 ex_params_ranges(1) ex_params_not_parametrized(1) by simp
  have kept: "value_c (vars ex_params_set 8) = value_c (vars ex_params 8)"
    using e8 ex_params_ranges(7) ex_params_not_parametrized(2) by simp
  have bw: "var_width (vars ex_params_big 11) = 100"
    using b8 by (simp add: ex_params_facts)
  have bval: "value_c (vars ex_params_big 7) = 100"
    using b7 ex_params_ranges_big(1) ex_params_not_parametrized(1) by simp
  have bkept: "value_c (vars ex_params_big 8) = value_c (vars ex_params 8)"
    using b8 ex_params_ranges_big(2) ex_params_not_parametrized(2) by simp
  have f: "Param_set_value 3 ex_params 7 0 =
     Inl (VarException
          ''{0} is used for parametrizing variable width, thus cannot be non-positive ({1})''
          [ToString 7, I64 0] [7])"
    using T [where v = 0 and st = ex_params and p = 7 and n = 2, THEN conjunct1]
    by (simp add: ex_params_facts numeral_3_eq_3)
  have cw: "chain_within 1 ex_params 7" by (simp add: ex_params_facts)
  have pos: "0 < sint (100 :: int64)" by simp
  have rd: "\<forall>r. chained ex_params 7 r \<longrightarrow>
      (0 < sint (100 :: int64) \<or> param_vars (vars ex_params r) = []) \<and>
      range_defined 100 (var_width (vars ex_params r)) (vars ex_params r) \<and>
      (parametrized_in_chain ex_params 7 r \<longrightarrow>
         range_defined 100 (ucast (100 :: int64)) (vars ex_params r))"
    using ex_params_chain ex_params_ranges_big(3,4) ex_params_not_parametrized pos by blast
  have t: "\<exists>st1. Param_set_value 2 ex_params 7 100 = Inr st1"
    using T [where v = 100 and st = ex_params and p = 7 and d = 1,
      THEN conjunct2, THEN conjunct2, rule_format, OF conjI [OF cw rd]]
    by (simp add: numeral_2_eq_2)
  show ?thesis
    using f ex_params_set_result ex_params_big_result w val kept bw bval bkept t by simp
qed


end
